theory Spec2Isabelle
  imports Complex_Main
begin

section \<open>UltraSonicSonar: an HC-SR04 range sensor driven over GPIO\<close>

text \<open>
  The development embeds the class \<^verbatim>\<open>UltraSonicSonar\<close> of
  \<^verbatim>\<open>UltraSonicSonar.ipynb\<close>: its constructor, \<^verbatim>\<open>init_hw\<close>,
  the property accessors and \<^verbatim>\<open>get_range\<close> (the operation the
  specification calls \<^verbatim>\<open>measure()\<close>).

  Conventions of the embedding.
  \<^item> A Python float is a value of \<open>pyfloat\<close>: a real number, \<open>nan\<close>, or one
    of the two infinities. Arithmetic on the numbers is exact: the rounding
    of IEEE doubles is not modelled. Overflow to an infinity is modelled where
    an argument of the constructor can cause it, in the product from which
    the wait time is taken.
  \<^item> The two external modules are a scripted world: \<^verbatim>\<open>GPIO.input\<close> and
    \<^verbatim>\<open>time.time\<close> answer from two lists of future readings, and every
    call to either module is appended to a trace. A call that finds its
    script used up yields \<open>None\<close>: the scripted readings did not reach the
    end of the measurement.
  \<^item> A method threads \<^verbatim>\<open>self\<close> explicitly: it takes the object and
    returns it with the fields it assigned.
\<close>

subsection \<open>Floats\<close>

datatype pyfloat = Num real | NaN | PInf | NInf

datatype py_error = ValueError | OverflowError

text \<open>Python's \<^verbatim>\<open>a < b\<close> on floats: false whenever an operand is nan.\<close>

fun pf_less :: "pyfloat \<Rightarrow> pyfloat \<Rightarrow> bool" where
  "pf_less (Num a) (Num b) = (a < b)"
| "pf_less (Num a) PInf = True"
| "pf_less NInf (Num b) = True"
| "pf_less NInf PInf = True"
| "pf_less _ _ = False"

text \<open>Python's \<^verbatim>\<open>a > b\<close>.\<close>

definition pf_greater :: "pyfloat \<Rightarrow> pyfloat \<Rightarrow> bool" where
  "pf_greater a b = pf_less b a"

text \<open>Python's \<^verbatim>\<open>a <= b\<close>.\<close>

definition pf_le :: "pyfloat \<Rightarrow> pyfloat \<Rightarrow> bool" where
  "pf_le a b = (a \<noteq> NaN \<and> b \<noteq> NaN \<and> (pf_less a b \<or> a = b))"

text \<open>\<^verbatim>\<open>math.isnan\<close>, \<^verbatim>\<open>math.isfinite\<close> and \<^verbatim>\<open>math.radians\<close>.\<close>

definition isnan :: "pyfloat \<Rightarrow> bool" where
  "isnan x = (x = NaN)"

fun isfinite :: "pyfloat \<Rightarrow> bool" where
  "isfinite (Num x) = True"
| "isfinite _ = False"

fun radians :: "pyfloat \<Rightarrow> pyfloat" where
  "radians (Num x) = Num (x * (pi / 180))"
| "radians v = v"

text \<open>
  The largest double, \<^verbatim>\<open>sys.float_info.max\<close>, about 1.797e308. A
  product beyond it is an infinity; the rounding of a product within half a
  unit in the last place of it is not modelled.
\<close>

definition float_max :: real where
  "float_max = (2 ^ 53 - 1) * 2 ^ 971"

subsection \<open>Module constants\<close>

definition SONIC_SPEED :: real where
  "SONIC_SPEED = 343"

definition HALF_SONIC_SPEED :: real where
  "HALF_SONIC_SPEED = SONIC_SPEED / 2"

subsection \<open>The object\<close>

text \<open>
  The fields are the private attributes \<^verbatim>\<open>self.__name\<close>, ...,
  \<^verbatim>\<open>self.__max_wait_time\<close>; \<^verbatim>\<open>__max_wait_time\<close> is an integer
  divided by 1000 and therefore always a number.
\<close>

record UltraSonicSonar =
  priv_name :: string
  priv_gpio_trigger :: int
  priv_gpio_echo :: int
  priv_min_range :: pyfloat
  priv_max_range :: pyfloat
  priv_field_of_view :: pyfloat
  priv_max_wait_time :: real

text \<open>
  \<^verbatim>\<open>math.ceil(max_range / SONIC_SPEED * 1000) / 1000\<close>. Dividing by
  343.0 and multiplying by 1000 keep nan and the infinities as they are,
  and the multiplication turns a number into an infinity when the product
  lies beyond the largest double. \<^verbatim>\<open>math.ceil\<close> raises
  \<^verbatim>\<open>ValueError\<close> on nan and \<^verbatim>\<open>OverflowError\<close> on an infinity.
\<close>

fun max_wait_time_of :: "pyfloat \<Rightarrow> py_error + real" where
  "max_wait_time_of (Num x) =
     (let product = x / SONIC_SPEED * 1000
      in if \<bar>product\<bar> > float_max then Inl OverflowError
         else Inr (real_of_int \<lceil>product\<rceil> / 1000))"
| "max_wait_time_of NaN = Inl ValueError"
| "max_wait_time_of PInf = Inl OverflowError"
| "max_wait_time_of NInf = Inl OverflowError"

declare max_wait_time_of.simps(1) [simp del]

text \<open>
  \<^verbatim>\<open>__init__\<close>. The last argument is \<open>None\<close> when the caller leaves
  \<^verbatim>\<open>field_of_view\<close> to its default \<^verbatim>\<open>math.nan\<close>.
\<close>

definition init ::
  "string \<Rightarrow> int \<Rightarrow> int \<Rightarrow> pyfloat \<Rightarrow> pyfloat \<Rightarrow> pyfloat option \<Rightarrow> py_error + UltraSonicSonar" where
  "init name gpio_trigger gpio_echo min_range max_range fov_arg =
     (let field_of_view = (case fov_arg of None \<Rightarrow> NaN | Some v \<Rightarrow> v);
          fov = (if \<not> isnan field_of_view then radians field_of_view else NaN)
      in case max_wait_time_of max_range of
           Inl e \<Rightarrow> Inl e
         | Inr mw \<Rightarrow>
             Inr \<lparr>priv_name = name, priv_gpio_trigger = gpio_trigger,
                  priv_gpio_echo = gpio_echo, priv_min_range = min_range,
                  priv_max_range = max_range, priv_field_of_view = fov,
                  priv_max_wait_time = mw\<rparr>)"

text \<open>The properties \<^verbatim>\<open>name\<close>, \<^verbatim>\<open>min_range\<close>, \<^verbatim>\<open>max_range\<close>, \<^verbatim>\<open>field_of_view\<close>.\<close>

definition name :: "UltraSonicSonar \<Rightarrow> string" where
  "name self = priv_name self"

definition min_range :: "UltraSonicSonar \<Rightarrow> pyfloat" where
  "min_range self = priv_min_range self"

definition max_range :: "UltraSonicSonar \<Rightarrow> pyfloat" where
  "max_range self = priv_max_range self"

definition field_of_view :: "UltraSonicSonar \<Rightarrow> pyfloat" where
  "field_of_view self = priv_field_of_view self"

subsection \<open>The scripted world of \<^verbatim>\<open>RPi.GPIO\<close> and \<^verbatim>\<open>time\<close>\<close>

datatype level = LOW | HIGH

datatype direction = OUT | IN

datatype event =
    GpioSetmodeBCM
  | GpioSetup int direction
  | GpioOutput int level
  | GpioInput int
  | TimeSleep real
  | TimeTime

record world =
  input_script :: "level list"
  clock_script :: "real list"
  trace :: "event list"

definition gpio_setmode_bcm :: "world \<Rightarrow> world" where
  "gpio_setmode_bcm w = w\<lparr>trace := trace w @ [GpioSetmodeBCM]\<rparr>"

definition gpio_setup :: "int \<Rightarrow> direction \<Rightarrow> world \<Rightarrow> world" where
  "gpio_setup pin d w = w\<lparr>trace := trace w @ [GpioSetup pin d]\<rparr>"

definition gpio_output :: "int \<Rightarrow> level \<Rightarrow> world \<Rightarrow> world" where
  "gpio_output pin l w = w\<lparr>trace := trace w @ [GpioOutput pin l]\<rparr>"

definition time_sleep :: "real \<Rightarrow> world \<Rightarrow> world" where
  "time_sleep d w = w\<lparr>trace := trace w @ [TimeSleep d]\<rparr>"

definition gpio_input :: "int \<Rightarrow> world \<Rightarrow> (level \<times> world) option" where
  "gpio_input pin w =
     (case input_script w of
        [] \<Rightarrow> None
      | l # ls \<Rightarrow> Some (l, w\<lparr>input_script := ls, trace := trace w @ [GpioInput pin]\<rparr>))"

definition time_time :: "world \<Rightarrow> (real \<times> world) option" where
  "time_time w =
     (case clock_script w of
        [] \<Rightarrow> None
      | t # ts \<Rightarrow> Some (t, w\<lparr>clock_script := ts, trace := trace w @ [TimeTime]\<rparr>))"

subsection \<open>\<^verbatim>\<open>init_hw\<close>\<close>

definition init_hw :: "UltraSonicSonar \<Rightarrow> world \<Rightarrow> UltraSonicSonar \<times> world" where
  "init_hw self w =
     (let w1 = gpio_setmode_bcm w;
          w2 = gpio_setup (priv_gpio_trigger self) OUT w1;
          w3 = gpio_output (priv_gpio_trigger self) LOW w2;
          w4 = gpio_setup (priv_gpio_echo self) IN w3
      in (self, w4))"

subsection \<open>\<^verbatim>\<open>get_range\<close>\<close>

text \<open>
  How a polling loop ends: the method returned a value from inside the
  loop, or the loop condition failed and control falls through with the
  timestamp the loop last assigned.
\<close>

datatype loop_exit = Returned pyfloat | Fell_through real

text \<open>
  \<^verbatim>\<open>while GPIO.input(self.__gpio_echo) == 0:\<close> with the body
  \<^verbatim>\<open>start_time = time.time()\<close>, then \<^verbatim>\<open>return math.nan\<close> if
  \<^verbatim>\<open>start_time - iteration_start_time > self.__max_wait_time\<close>.
\<close>

function wait_echo_start ::
  "UltraSonicSonar \<Rightarrow> real \<Rightarrow> real \<Rightarrow> world \<Rightarrow> (loop_exit \<times> world) option" where
  "wait_echo_start self iteration_start_time start_time w =
     (case gpio_input (priv_gpio_echo self) w of
        None \<Rightarrow> None
      | Some (l, w1) \<Rightarrow>
          if l = LOW then
            (case time_time w1 of
               None \<Rightarrow> None
             | Some (t, w2) \<Rightarrow>
                 if t - iteration_start_time > priv_max_wait_time self
                 then Some (Returned NaN, w2)
                 else wait_echo_start self iteration_start_time t w2)
          else Some (Fell_through start_time, w1))"
  by pat_completeness auto
termination
  by (relation "measure (\<lambda>(self, it, st, w). length (input_script w))")
     (auto simp: gpio_input_def time_time_def split: list.splits)

declare wait_echo_start.simps [simp del]

text \<open>
  \<^verbatim>\<open>while GPIO.input(self.__gpio_echo) == 1:\<close> with the body
  \<^verbatim>\<open>stop_time = time.time()\<close>, then \<^verbatim>\<open>return self.__max_range\<close> if
  \<^verbatim>\<open>stop_time - iteration_start_time > self.__max_wait_time\<close>.
\<close>

function wait_echo_end ::
  "UltraSonicSonar \<Rightarrow> real \<Rightarrow> real \<Rightarrow> world \<Rightarrow> (loop_exit \<times> world) option" where
  "wait_echo_end self iteration_start_time stop_time w =
     (case gpio_input (priv_gpio_echo self) w of
        None \<Rightarrow> None
      | Some (l, w1) \<Rightarrow>
          if l = HIGH then
            (case time_time w1 of
               None \<Rightarrow> None
             | Some (t, w2) \<Rightarrow>
                 if t - iteration_start_time > priv_max_wait_time self
                 then Some (Returned (priv_max_range self), w2)
                 else wait_echo_end self iteration_start_time t w2)
          else Some (Fell_through stop_time, w1))"
  by pat_completeness auto
termination
  by (relation "measure (\<lambda>(self, it, st, w). length (input_script w))")
     (auto simp: gpio_input_def time_time_def split: list.splits)

declare wait_echo_end.simps [simp del]

text \<open>
  The two \<^verbatim>\<open>if\<close> statements after the loops:
  \<^verbatim>\<open>if range_m > self.__max_range: range_m = self.__max_range\<close> and
  \<^verbatim>\<open>if range_m < self.__min_range: range_m = self.__min_range\<close>.
\<close>

definition limit_range :: "UltraSonicSonar \<Rightarrow> pyfloat \<Rightarrow> pyfloat" where
  "limit_range self range_m =
     (let range_m1 = (if pf_greater range_m (priv_max_range self)
                      then priv_max_range self else range_m)
      in if pf_less range_m1 (priv_min_range self)
         then priv_min_range self else range_m1)"

definition get_range ::
  "UltraSonicSonar \<Rightarrow> world \<Rightarrow> (pyfloat \<times> UltraSonicSonar \<times> world) option" where
  "get_range self w =
     (let w1 = gpio_output (priv_gpio_trigger self) HIGH w;
          w2 = time_sleep (1 / 100000) w1;
          w3 = gpio_output (priv_gpio_trigger self) LOW w2
      in case time_time w3 of
           None \<Rightarrow> None
         | Some (start_time0, w4) \<Rightarrow>
       (case time_time w4 of
           None \<Rightarrow> None
         | Some (stop_time0, w5) \<Rightarrow>
       (case time_time w5 of
           None \<Rightarrow> None
         | Some (iteration_start_time, w6) \<Rightarrow>
       (case wait_echo_start self iteration_start_time start_time0 w6 of
           None \<Rightarrow> None
         | Some (Returned v, w7) \<Rightarrow> Some (v, self, w7)
         | Some (Fell_through start_time, w7) \<Rightarrow>
       (case wait_echo_end self iteration_start_time stop_time0 w7 of
           None \<Rightarrow> None
         | Some (Returned v, w8) \<Rightarrow> Some (v, self, w8)
         | Some (Fell_through stop_time, w8) \<Rightarrow>
             (let time_elapsed = stop_time - start_time;
                  range_m = Num (time_elapsed * HALF_SONIC_SPEED)
              in Some (limit_range self range_m, self, w8)))))))"

subsection \<open>Objects and worlds used in examples\<close>

text \<open>
  The first sensor of the notebook's second cell,
  \<^verbatim>\<open>UltraSonicSonar("right", 15, 14, 0.05, 4.0, 0)\<close>, as constructed;
  a fresh world with the given scripts; and the world \<^verbatim>\<open>get_range\<close> has
  reached when it enters its first loop: the trigger pulse is sent, three
  timestamps are taken and \<open>ts\<close> is what remains of the clock script.
  The last three constants script one echo pulse for that sensor: the line
  is read low once, high three times and low again, the pulse is measured
  from the timestamp 0.001 to the timestamp 0.00433, and \<open>pulse_trace\<close>
  lists the calls \<^verbatim>\<open>get_range\<close> makes on it.
\<close>

definition sonar_right :: UltraSonicSonar where
  "sonar_right =
     \<lparr>priv_name = ''right'', priv_gpio_trigger = 15, priv_gpio_echo = 14,
      priv_min_range = Num (5 / 100), priv_max_range = Num 4,
      priv_field_of_view = Num 0, priv_max_wait_time = 12 / 1000\<rparr>"

definition scripted :: "level list \<Rightarrow> real list \<Rightarrow> world" where
  "scripted ls ts = \<lparr>input_script = ls, clock_script = ts, trace = []\<rparr>"

definition after_trigger :: "UltraSonicSonar \<Rightarrow> world \<Rightarrow> real list \<Rightarrow> world" where
  "after_trigger self w ts =
     w\<lparr>clock_script := ts,
       trace := trace w @ [GpioOutput (priv_gpio_trigger self) HIGH, TimeSleep (1 / 100000),
                           GpioOutput (priv_gpio_trigger self) LOW, TimeTime, TimeTime, TimeTime]\<rparr>"

definition pulse_inputs :: "level list" where
  "pulse_inputs = [LOW, HIGH, HIGH, HIGH, LOW]"

definition pulse_clock :: "real list" where
  "pulse_clock = [0, 0, 0, 1 / 1000, 2 / 1000, 433 / 100000]"

definition pulse_trace :: "event list" where
  "pulse_trace =
     [GpioOutput 15 HIGH, TimeSleep (1 / 100000), GpioOutput 15 LOW,
      TimeTime, TimeTime, TimeTime,
      GpioInput 14, TimeTime, GpioInput 14,
      GpioInput 14, TimeTime, GpioInput 14, TimeTime, GpioInput 14]"

section \<open>Basic facts\<close>

subsection \<open>The range of doubles\<close>

lemma float_max_ge: "2 ^ 20 \<le> float_max"
proof -
  have "(2::real) ^ 20 \<le> 2 ^ 971"
    by (rule power_increasing) simp_all
  also have "\<dots> \<le> (2 ^ 53 - 1) * 2 ^ 971"
    by simp
  finally show ?thesis by (simp add: float_max_def)
qed

lemma max_wait_time_of_Num:
  "max_wait_time_of (Num x) =
     (if float_max < \<bar>x / 343 * 1000\<bar> then Inl OverflowError
      else Inr (real_of_int \<lceil>x / 343 * 1000\<rceil> / 1000))"
  unfolding max_wait_time_of.simps(1) Let_def SONIC_SPEED_def by simp

lemma max_wait_time_of_small:
  assumes "\<bar>x\<bar> \<le> 1000"
  shows "max_wait_time_of (Num x) = Inr (real_of_int \<lceil>x / 343 * 1000\<rceil> / 1000)"
proof -
  have "\<bar>x / 343 * 1000\<bar> = \<bar>x\<bar> * (1000 / 343)"
    by (simp add: abs_mult)
  also have "\<dots> \<le> 1000 * (1000 / 343)"
    using assms by (intro mult_right_mono) simp_all
  also have "\<dots> \<le> 2 ^ 20"
    by simp
  finally have "\<not> float_max < \<bar>x / 343 * 1000\<bar>"
    using float_max_ge by simp
  then show ?thesis
    unfolding max_wait_time_of_Num by (rule if_not_P)
qed

lemma float_max_less: "float_max < 2 ^ 1024"
proof -
  have "float_max = 2 ^ 1024 - 2 ^ 971"
    by (simp add: float_max_def algebra_simps flip: power_add)
  then show ?thesis by simp
qed

subsection \<open>Single calls to the world\<close>

lemma gpio_input_Cons:
  "input_script w = l # ls \<Longrightarrow>
   gpio_input pin w = Some (l, w\<lparr>input_script := ls, trace := trace w @ [GpioInput pin]\<rparr>)"
  by (simp add: gpio_input_def)

lemma time_time_Cons:
  "clock_script w = t # ts \<Longrightarrow>
   time_time w = Some (t, w\<lparr>clock_script := ts, trace := trace w @ [TimeTime]\<rparr>)"
  by (simp add: time_time_def)

lemma gpio_input_SomeD:
  "gpio_input pin w = Some (l, w1) \<Longrightarrow>
   input_script w = l # input_script w1 \<and> clock_script w1 = clock_script w \<and>
   trace w1 = trace w @ [GpioInput pin]"
  by (auto simp: gpio_input_def split: list.splits)

lemma time_time_SomeD:
  "time_time w = Some (t, w1) \<Longrightarrow>
   clock_script w = t # clock_script w1 \<and> input_script w1 = input_script w \<and>
   trace w1 = trace w @ [TimeTime]"
  by (auto simp: time_time_def split: list.splits)

subsection \<open>The loops on scripted runs\<close>

lemma wait_echo_start_rises:
  "input_script w = replicate (length cs) LOW @ HIGH # es \<Longrightarrow>
   clock_script w = cs @ ts \<Longrightarrow>
   \<forall>c \<in> set cs. \<not> c - it > priv_max_wait_time self \<Longrightarrow>
   \<exists>w'. wait_echo_start self it st w = Some (Fell_through (last (st # cs)), w')
      \<and> input_script w' = es \<and> clock_script w' = ts"
proof (induction cs arbitrary: w st)
  case Nil
  then show ?case
    by (subst wait_echo_start.simps) (simp add: gpio_input_Cons)
next
  case (Cons c cs)
  let ?w2 = "w\<lparr>input_script := replicate (length cs) LOW @ HIGH # es,
                trace := trace w @ [GpioInput (priv_gpio_echo self)],
                clock_script := cs @ ts,
                trace := trace w @ [GpioInput (priv_gpio_echo self), TimeTime]\<rparr>"
  have "\<exists>w'. wait_echo_start self it c ?w2 = Some (Fell_through (last (c # cs)), w')
      \<and> input_script w' = es \<and> clock_script w' = ts"
    using Cons.prems by (intro Cons.IH) simp_all
  moreover have "wait_echo_start self it st w = wait_echo_start self it c ?w2"
    using Cons.prems
    by (subst wait_echo_start.simps) (simp add: gpio_input_Cons time_time_Cons)
  ultimately show ?case by simp
qed

lemma wait_echo_start_times_out:
  "input_script w = replicate (Suc (length cs)) LOW @ es \<Longrightarrow>
   clock_script w = cs @ c # ts \<Longrightarrow>
   \<forall>c \<in> set cs. \<not> c - it > priv_max_wait_time self \<Longrightarrow>
   c - it > priv_max_wait_time self \<Longrightarrow>
   \<exists>w'. wait_echo_start self it st w = Some (Returned NaN, w')
      \<and> input_script w' = es \<and> clock_script w' = ts"
proof (induction cs arbitrary: w st)
  case Nil
  then show ?case
    by (subst wait_echo_start.simps) (simp add: gpio_input_Cons time_time_Cons)
next
  case (Cons d cs)
  let ?w2 = "w\<lparr>input_script := replicate (Suc (length cs)) LOW @ es,
                trace := trace w @ [GpioInput (priv_gpio_echo self)],
                clock_script := cs @ c # ts,
                trace := trace w @ [GpioInput (priv_gpio_echo self), TimeTime]\<rparr>"
  have "\<exists>w'. wait_echo_start self it d ?w2 = Some (Returned NaN, w')
      \<and> input_script w' = es \<and> clock_script w' = ts"
    using Cons.prems by (intro Cons.IH) simp_all
  moreover have "wait_echo_start self it st w = wait_echo_start self it d ?w2"
    using Cons.prems
    by (subst wait_echo_start.simps) (simp add: gpio_input_Cons time_time_Cons)
  ultimately show ?case by simp
qed

lemma wait_echo_end_falls:
  "input_script w = replicate (length ds) HIGH @ LOW # es \<Longrightarrow>
   clock_script w = ds @ ts \<Longrightarrow>
   \<forall>d \<in> set ds. \<not> d - it > priv_max_wait_time self \<Longrightarrow>
   \<exists>w'. wait_echo_end self it st w = Some (Fell_through (last (st # ds)), w')
      \<and> input_script w' = es \<and> clock_script w' = ts"
proof (induction ds arbitrary: w st)
  case Nil
  then show ?case
    by (subst wait_echo_end.simps) (simp add: gpio_input_Cons)
next
  case (Cons d ds)
  let ?w2 = "w\<lparr>input_script := replicate (length ds) HIGH @ LOW # es,
                trace := trace w @ [GpioInput (priv_gpio_echo self)],
                clock_script := ds @ ts,
                trace := trace w @ [GpioInput (priv_gpio_echo self), TimeTime]\<rparr>"
  have "\<exists>w'. wait_echo_end self it d ?w2 = Some (Fell_through (last (d # ds)), w')
      \<and> input_script w' = es \<and> clock_script w' = ts"
    using Cons.prems by (intro Cons.IH) simp_all
  moreover have "wait_echo_end self it st w = wait_echo_end self it d ?w2"
    using Cons.prems
    by (subst wait_echo_end.simps) (simp add: gpio_input_Cons time_time_Cons)
  ultimately show ?case by simp
qed

lemma wait_echo_end_times_out:
  "input_script w = replicate (Suc (length ds)) HIGH @ es \<Longrightarrow>
   clock_script w = ds @ d # ts \<Longrightarrow>
   \<forall>d' \<in> set ds. \<not> d' - it > priv_max_wait_time self \<Longrightarrow>
   d - it > priv_max_wait_time self \<Longrightarrow>
   \<exists>w'. wait_echo_end self it st w = Some (Returned (priv_max_range self), w')
      \<and> input_script w' = es \<and> clock_script w' = ts"
proof (induction ds arbitrary: w st)
  case Nil
  then show ?case
    by (subst wait_echo_end.simps) (simp add: gpio_input_Cons time_time_Cons)
next
  case (Cons d0 ds)
  let ?w2 = "w\<lparr>input_script := replicate (Suc (length ds)) HIGH @ es,
                trace := trace w @ [GpioInput (priv_gpio_echo self)],
                clock_script := ds @ d # ts,
                trace := trace w @ [GpioInput (priv_gpio_echo self), TimeTime]\<rparr>"
  have "\<exists>w'. wait_echo_end self it d0 ?w2 = Some (Returned (priv_max_range self), w')
      \<and> input_script w' = es \<and> clock_script w' = ts"
    using Cons.prems by (intro Cons.IH) simp_all
  moreover have "wait_echo_end self it st w = wait_echo_end self it d0 ?w2"
    using Cons.prems
    by (subst wait_echo_end.simps) (simp add: gpio_input_Cons time_time_Cons)
  ultimately show ?case by simp
qed

subsection \<open>The body of \<^verbatim>\<open>get_range\<close> around the loops\<close>

lemma get_range_unfold:
  "clock_script w = t0 # t1 # t2 # ts \<Longrightarrow>
   get_range self w =
     (case wait_echo_start self t2 t0 (after_trigger self w ts) of
        None \<Rightarrow> None
      | Some (Returned v, w7) \<Rightarrow> Some (v, self, w7)
      | Some (Fell_through start_time, w7) \<Rightarrow>
          (case wait_echo_end self t2 t1 w7 of
             None \<Rightarrow> None
           | Some (Returned v, w8) \<Rightarrow> Some (v, self, w8)
           | Some (Fell_through stop_time, w8) \<Rightarrow>
               Some (limit_range self (Num ((stop_time - start_time) * HALF_SONIC_SPEED)), self, w8)))"
  unfolding get_range_def Let_def
  by (simp add: after_trigger_def gpio_output_def time_sleep_def time_time_def)

lemma get_range_short_clock:
  "length (clock_script w) < 3 \<Longrightarrow> get_range self w = None"
  by (auto simp: get_range_def gpio_output_def time_sleep_def time_time_def Let_def
           split: list.splits)

lemma limit_range_cases:
  "(pf_less x (priv_min_range self) \<longrightarrow> limit_range self x = priv_min_range self) \<and>
   (pf_le (priv_min_range self) x \<and> pf_le x (priv_max_range self) \<longrightarrow> limit_range self x = x) \<and>
   (pf_le (priv_min_range self) (priv_max_range self) \<and> pf_less (priv_max_range self) x
      \<longrightarrow> limit_range self x = priv_max_range self)"
  by (cases x; cases "priv_min_range self"; cases "priv_max_range self")
     (auto simp: limit_range_def pf_greater_def pf_le_def Let_def)

lemma limit_range_within:
  "pf_le (priv_min_range self) (priv_max_range self) \<Longrightarrow> x \<noteq> NaN \<Longrightarrow>
   pf_le (priv_min_range self) (limit_range self x) \<and> pf_le (limit_range self x) (priv_max_range self)"
  by (cases x; cases "priv_min_range self"; cases "priv_max_range self")
     (auto simp: limit_range_def pf_greater_def pf_le_def Let_def)

lemma init_Inr:
  "init n tr ec mn mx fov = Inr self \<Longrightarrow>
   \<exists>x. mx = Num x \<and>
     self = \<lparr>priv_name = n, priv_gpio_trigger = tr, priv_gpio_echo = ec, priv_min_range = mn,
             priv_max_range = Num x,
             priv_field_of_view = (case fov of None \<Rightarrow> NaN | Some v \<Rightarrow> radians v),
             priv_max_wait_time = real_of_int \<lceil>x / 343 * 1000\<rceil> / 1000\<rparr>"
  by (cases mx; cases fov)
     (auto simp: init_def Let_def isnan_def max_wait_time_of_Num split: if_splits)

lemma init_sonar_right:
  "init ''right'' 15 14 (Num (5 / 100)) (Num 4) (Some (Num 0)) = Inr sonar_right"
  by (simp add: init_def sonar_right_def isnan_def max_wait_time_of_small Let_def)

lemma pulse_run:
  "get_range sonar_right
     \<lparr>input_script = pulse_inputs @ ri, clock_script = map (\<lambda>t. t + d) pulse_clock @ rc, trace = tr\<rparr>
   = Some (Num (571095 / 1000000), sonar_right,
       \<lparr>input_script = ri, clock_script = rc, trace = tr @ pulse_trace\<rparr>)"
  unfolding get_range_def Let_def
  by (simp add: pulse_inputs_def pulse_clock_def pulse_trace_def sonar_right_def
        wait_echo_start.simps wait_echo_end.simps
        gpio_output_def gpio_input_def time_sleep_def time_time_def limit_range_def
        pf_greater_def HALF_SONIC_SPEED_def SONIC_SPEED_def)

lemma pulse_run0:
  "get_range sonar_right (scripted pulse_inputs pulse_clock)
   = Some (Num (571095 / 1000000), sonar_right, scripted [] [] \<lparr>trace := pulse_trace\<rparr>)"
  using pulse_run [of "[]" 0 "[]" "[]"] by (simp add: scripted_def)

subsection \<open>One iteration of each loop\<close>

lemma wait_echo_start_cases [consumes 1, case_names fell timeout again]:
  assumes "wait_echo_start self it st w = Some (e, w')"
  obtains
    (fell) "gpio_input (priv_gpio_echo self) w = Some (HIGH, w')" "e = Fell_through st"
  | (timeout) w1 t where "gpio_input (priv_gpio_echo self) w = Some (LOW, w1)"
      "time_time w1 = Some (t, w')" "t - it > priv_max_wait_time self" "e = Returned NaN"
  | (again) w1 t w2 where "gpio_input (priv_gpio_echo self) w = Some (LOW, w1)"
      "time_time w1 = Some (t, w2)" "\<not> t - it > priv_max_wait_time self"
      "wait_echo_start self it t w2 = Some (e, w')"
proof -
  obtain l w1 where gi: "gpio_input (priv_gpio_echo self) w = Some (l, w1)"
    using assms by (subst (asm) wait_echo_start.simps) (auto split: option.splits)
  show thesis
  proof (cases l)
    case HIGH
    then show thesis
      using assms gi fell by (subst (asm) wait_echo_start.simps) simp
  next
    case LOW
    then obtain t w2 where tt: "time_time w1 = Some (t, w2)"
      using assms gi by (subst (asm) wait_echo_start.simps) (auto split: option.splits)
    show thesis
    proof (cases "t - it > priv_max_wait_time self")
      case True
      then show thesis
        using assms gi LOW tt timeout by (subst (asm) wait_echo_start.simps) simp
    next
      case False
      then show thesis
        using assms gi LOW tt again by (subst (asm) wait_echo_start.simps) simp
    qed
  qed
qed

lemma wait_echo_start_Returned:
  "wait_echo_start self it st w = Some (Returned v, w') \<Longrightarrow> v = NaN"
proof (induction self it st w rule: wait_echo_start.induct)
  case (1 self it st w)
  from "1.prems" show ?case
  proof (cases rule: wait_echo_start_cases)
    case (again w1 t w2)
    from "1.IH" [OF again(1) refl refl again(2) refl again(3) again(4)] show ?thesis .
  qed simp_all
qed

lemma wait_echo_start_trace:
  "wait_echo_start self it st w = Some (e, w') \<Longrightarrow>
   \<exists>evs. trace w' = trace w @ evs \<and> set evs \<subseteq> {GpioInput (priv_gpio_echo self), TimeTime}"
proof (induction self it st w rule: wait_echo_start.induct)
  case (1 self it st w)
  from "1.prems" show ?case
  proof (cases rule: wait_echo_start_cases)
    case fell
    then show ?thesis by (auto dest!: gpio_input_SomeD)
  next
    case (timeout w1 t)
    then show ?thesis by (auto dest!: gpio_input_SomeD time_time_SomeD)
  next
    case (again w1 t w2)
    from "1.IH" [OF again(1) refl refl again(2) refl again(3) again(4)]
    obtain evs where "trace w' = trace w2 @ evs"
      "set evs \<subseteq> {GpioInput (priv_gpio_echo self), TimeTime}" by blast
    moreover have "trace w2 = trace w @ [GpioInput (priv_gpio_echo self), TimeTime]"
      using again(1,2) by (auto dest!: gpio_input_SomeD time_time_SomeD)
    ultimately show ?thesis by auto
  qed
qed

lemma wait_echo_end_cases [consumes 1, case_names fell timeout again]:
  assumes "wait_echo_end self it st w = Some (e, w')"
  obtains
    (fell) "gpio_input (priv_gpio_echo self) w = Some (LOW, w')" "e = Fell_through st"
  | (timeout) w1 t where "gpio_input (priv_gpio_echo self) w = Some (HIGH, w1)"
      "time_time w1 = Some (t, w')" "t - it > priv_max_wait_time self" "e = Returned (priv_max_range self)"
  | (again) w1 t w2 where "gpio_input (priv_gpio_echo self) w = Some (HIGH, w1)"
      "time_time w1 = Some (t, w2)" "\<not> t - it > priv_max_wait_time self"
      "wait_echo_end self it t w2 = Some (e, w')"
proof -
  obtain l w1 where gi: "gpio_input (priv_gpio_echo self) w = Some (l, w1)"
    using assms by (subst (asm) wait_echo_end.simps) (auto split: option.splits)
  show thesis
  proof (cases l)
    case LOW
    then show thesis
      using assms gi fell by (subst (asm) wait_echo_end.simps) simp
  next
    case HIGH
    then obtain t w2 where tt: "time_time w1 = Some (t, w2)"
      using assms gi by (subst (asm) wait_echo_end.simps) (auto split: option.splits)
    show thesis
    proof (cases "t - it > priv_max_wait_time self")
      case True
      then show thesis
        using assms gi HIGH tt timeout by (subst (asm) wait_echo_end.simps) simp
    next
      case False
      then show thesis
        using assms gi HIGH tt again by (subst (asm) wait_echo_end.simps) simp
    qed
  qed
qed

lemma wait_echo_end_Returned:
  "wait_echo_end self it st w = Some (Returned v, w') \<Longrightarrow> v = priv_max_range self"
proof (induction self it st w rule: wait_echo_end.induct)
  case (1 self it st w)
  from "1.prems" show ?case
  proof (cases rule: wait_echo_end_cases)
    case (again w1 t w2)
    from "1.IH" [OF again(1) refl refl again(2) refl again(3) again(4)] show ?thesis .
  qed simp_all
qed

lemma wait_echo_end_trace:
  "wait_echo_end self it st w = Some (e, w') \<Longrightarrow>
   \<exists>evs. trace w' = trace w @ evs \<and> set evs \<subseteq> {GpioInput (priv_gpio_echo self), TimeTime}"
proof (induction self it st w rule: wait_echo_end.induct)
  case (1 self it st w)
  from "1.prems" show ?case
  proof (cases rule: wait_echo_end_cases)
    case fell
    then show ?thesis by (auto dest!: gpio_input_SomeD)
  next
    case (timeout w1 t)
    then show ?thesis by (auto dest!: gpio_input_SomeD time_time_SomeD)
  next
    case (again w1 t w2)
    from "1.IH" [OF again(1) refl refl again(2) refl again(3) again(4)]
    obtain evs where "trace w' = trace w2 @ evs"
      "set evs \<subseteq> {GpioInput (priv_gpio_echo self), TimeTime}" by blast
    moreover have "trace w2 = trace w @ [GpioInput (priv_gpio_echo self), TimeTime]"
      using again(1,2) by (auto dest!: gpio_input_SomeD time_time_SomeD)
    ultimately show ?thesis by auto
  qed
qed

subsection \<open>The three ways \<^verbatim>\<open>get_range\<close> returns\<close>

lemma get_range_cases [consumes 1, case_names no_echo max_range measured]:
  assumes "get_range self w = Some (r, self', w')"
  obtains
    (no_echo) t0 t1 t2 ts where "clock_script w = t0 # t1 # t2 # ts"
      "wait_echo_start self t2 t0 (after_trigger self w ts) = Some (Returned NaN, w')"
      "r = NaN" "self' = self"
  | (max_range) t0 t1 t2 ts start_time w7 where "clock_script w = t0 # t1 # t2 # ts"
      "wait_echo_start self t2 t0 (after_trigger self w ts) = Some (Fell_through start_time, w7)"
      "wait_echo_end self t2 t1 w7 = Some (Returned (priv_max_range self), w')"
      "r = priv_max_range self" "self' = self"
  | (measured) t0 t1 t2 ts start_time w7 stop_time where "clock_script w = t0 # t1 # t2 # ts"
      "wait_echo_start self t2 t0 (after_trigger self w ts) = Some (Fell_through start_time, w7)"
      "wait_echo_end self t2 t1 w7 = Some (Fell_through stop_time, w')"
      "r = limit_range self (Num ((stop_time - start_time) * HALF_SONIC_SPEED))" "self' = self"
proof -
  have "3 \<le> length (clock_script w)"
    using assms get_range_short_clock [of w self] by (cases "length (clock_script w) < 3") auto
  then obtain t0 t1 t2 ts where cl: "clock_script w = t0 # t1 # t2 # ts"
    by (auto simp: numeral_3_eq_3 Suc_le_length_iff)
  note run = assms [unfolded get_range_unfold [OF cl]]
  obtain e1 w7 where s1: "wait_echo_start self t2 t0 (after_trigger self w ts) = Some (e1, w7)"
    using run by (auto split: option.splits)
  show thesis
  proof (cases e1)
    case (Returned v)
    have v: "v = NaN"
      using s1 unfolding Returned by (rule wait_echo_start_Returned)
    have "r = v \<and> self' = self \<and> w' = w7"
      using run unfolding s1 Returned by auto
    then show thesis
      using no_echo [OF cl] s1 v unfolding Returned by simp
  next
    case (Fell_through start_time)
    note run1 = run [unfolded s1 Fell_through, simplified]
    obtain e2 w8 where s2: "wait_echo_end self t2 t1 w7 = Some (e2, w8)"
      using run1 by (auto split: option.splits)
    show thesis
    proof (cases e2)
      case (Returned v)
      have v: "v = priv_max_range self"
        using s2 unfolding Returned by (rule wait_echo_end_Returned)
      have "r = v \<and> self' = self \<and> w' = w8"
        using run1 unfolding s2 Returned by auto
      then show thesis
        using max_range [OF cl] s1 s2 v unfolding Returned Fell_through by simp
    next
      case F2: (Fell_through stop_time)
      have "r = limit_range self (Num ((stop_time - start_time) * HALF_SONIC_SPEED))
            \<and> self' = self \<and> w' = w8"
        using run1 unfolding s2 F2 by auto
      then show thesis
        using measured [OF cl] s1 s2 unfolding F2 Fell_through by simp
    qed
  qed
qed

subsection \<open>A loop reads only the readings it consumes\<close>

text \<open>
  A loop that ends has consumed a prefix of each script. On any world whose
  scripts start with the same input readings and with the same timestamps
  moved by \<open>d\<close>, the loop ends the same way and leaves the rest of the
  scripts.
\<close>

lemma wait_echo_start_replay:
  assumes "wait_echo_start self it st w = Some (e, w')"
  shows "\<exists>ins cls. input_script w = ins @ input_script w' \<and> clock_script w = cls @ clock_script w' \<and>
           (\<forall>v d ri rc. input_script v = ins @ ri \<longrightarrow> clock_script v = map (\<lambda>t. t + d) cls @ rc \<longrightarrow>
              (\<exists>v'. wait_echo_start self (it + d) (st + d) v =
                      Some (case e of Returned x \<Rightarrow> Returned x | Fell_through t \<Rightarrow> Fell_through (t + d), v')
                  \<and> input_script v' = ri \<and> clock_script v' = rc))"
  using assms
proof (induction self it st w rule: wait_echo_start.induct)
  case (1 self it st w)
  from "1.prems"(1) show ?case
  proof (cases rule: wait_echo_start_cases)
    case fell
    have "input_script w = [HIGH] @ input_script w'" "clock_script w = [] @ clock_script w'"
      using gpio_input_SomeD [OF fell(1)] by simp_all
    moreover have "\<exists>v'. wait_echo_start self (it + d) (st + d) v =
          Some (case e of Returned x \<Rightarrow> Returned x | Fell_through t \<Rightarrow> Fell_through (t + d), v')
          \<and> input_script v' = ri \<and> clock_script v' = rc"
      if "input_script v = [HIGH] @ ri" "clock_script v = map (\<lambda>t. t + d) [] @ rc" for v d ri rc
      using that fell(2) by (subst wait_echo_start.simps) (simp add: gpio_input_def)
    ultimately show ?thesis by blast
  next
    case (timeout w1 t)
    have "input_script w = [LOW] @ input_script w'" "clock_script w = [t] @ clock_script w'"
      using gpio_input_SomeD [OF timeout(1)] time_time_SomeD [OF timeout(2)] by simp_all
    moreover have "\<exists>v'. wait_echo_start self (it + d) (st + d) v =
          Some (case e of Returned x \<Rightarrow> Returned x | Fell_through t \<Rightarrow> Fell_through (t + d), v')
          \<and> input_script v' = ri \<and> clock_script v' = rc"
      if "input_script v = [LOW] @ ri" "clock_script v = map (\<lambda>t. t + d) [t] @ rc" for v d ri rc
      using that timeout(3,4)
      by (subst wait_echo_start.simps) (simp add: gpio_input_def time_time_def)
    ultimately show ?thesis by blast
  next
    case (again w1 t w2)
    from "1.IH" [OF again(1) refl refl again(2) refl again(3) again(4)]
    obtain ins cls where i: "input_script w2 = ins @ input_script w'"
      and c: "clock_script w2 = cls @ clock_script w'"
      and replay: "\<And>v d ri rc. input_script v = ins @ ri \<Longrightarrow>
          clock_script v = map (\<lambda>t. t + d) cls @ rc \<Longrightarrow>
          \<exists>v'. wait_echo_start self (it + d) (t + d) v =
                  Some (case e of Returned x \<Rightarrow> Returned x | Fell_through t \<Rightarrow> Fell_through (t + d), v')
              \<and> input_script v' = ri \<and> clock_script v' = rc"
      by blast
    have "input_script w = (LOW # ins) @ input_script w'" "clock_script w = (t # cls) @ clock_script w'"
      using gpio_input_SomeD [OF again(1)] time_time_SomeD [OF again(2)] i c by simp_all
    moreover have "\<exists>v'. wait_echo_start self (it + d) (st + d) v =
          Some (case e of Returned x \<Rightarrow> Returned x | Fell_through t \<Rightarrow> Fell_through (t + d), v')
          \<and> input_script v' = ri \<and> clock_script v' = rc"
      if iv: "input_script v = (LOW # ins) @ ri" and cv: "clock_script v = map (\<lambda>t. t + d) (t # cls) @ rc"
      for v d ri rc
    proof -
      let ?v2 = "v\<lparr>input_script := ins @ ri,
                    trace := trace v @ [GpioInput (priv_gpio_echo self)],
                    clock_script := map (\<lambda>t. t + d) cls @ rc,
                    trace := trace v @ [GpioInput (priv_gpio_echo self), TimeTime]\<rparr>"
      have "wait_echo_start self (it + d) (st + d) v = wait_echo_start self (it + d) (t + d) ?v2"
        using iv cv again(3)
        by (subst wait_echo_start.simps) (simp add: gpio_input_def time_time_def)
      moreover have "\<exists>v'. wait_echo_start self (it + d) (t + d) ?v2 =
                  Some (case e of Returned x \<Rightarrow> Returned x | Fell_through t \<Rightarrow> Fell_through (t + d), v')
              \<and> input_script v' = ri \<and> clock_script v' = rc"
        by (rule replay) simp_all
      ultimately show ?thesis by simp
    qed
    ultimately show ?thesis by blast
  qed
qed

lemma wait_echo_end_replay:
  assumes "wait_echo_end self it st w = Some (e, w')"
  shows "\<exists>ins cls. input_script w = ins @ input_script w' \<and> clock_script w = cls @ clock_script w' \<and>
           (\<forall>v d ri rc. input_script v = ins @ ri \<longrightarrow> clock_script v = map (\<lambda>t. t + d) cls @ rc \<longrightarrow>
              (\<exists>v'. wait_echo_end self (it + d) (st + d) v =
                      Some (case e of Returned x \<Rightarrow> Returned x | Fell_through t \<Rightarrow> Fell_through (t + d), v')
                  \<and> input_script v' = ri \<and> clock_script v' = rc))"
  using assms
proof (induction self it st w rule: wait_echo_end.induct)
  case (1 self it st w)
  from "1.prems"(1) show ?case
  proof (cases rule: wait_echo_end_cases)
    case fell
    have "input_script w = [LOW] @ input_script w'" "clock_script w = [] @ clock_script w'"
      using gpio_input_SomeD [OF fell(1)] by simp_all
    moreover have "\<exists>v'. wait_echo_end self (it + d) (st + d) v =
          Some (case e of Returned x \<Rightarrow> Returned x | Fell_through t \<Rightarrow> Fell_through (t + d), v')
          \<and> input_script v' = ri \<and> clock_script v' = rc"
      if "input_script v = [LOW] @ ri" "clock_script v = map (\<lambda>t. t + d) [] @ rc" for v d ri rc
      using that fell(2) by (subst wait_echo_end.simps) (simp add: gpio_input_def)
    ultimately show ?thesis by blast
  next
    case (timeout w1 t)
    have "input_script w = [HIGH] @ input_script w'" "clock_script w = [t] @ clock_script w'"
      using gpio_input_SomeD [OF timeout(1)] time_time_SomeD [OF timeout(2)] by simp_all
    moreover have "\<exists>v'. wait_echo_end self (it + d) (st + d) v =
          Some (case e of Returned x \<Rightarrow> Returned x | Fell_through t \<Rightarrow> Fell_through (t + d), v')
          \<and> input_script v' = ri \<and> clock_script v' = rc"
      if "input_script v = [HIGH] @ ri" "clock_script v = map (\<lambda>t. t + d) [t] @ rc" for v d ri rc
      using that timeout(3,4)
      by (subst wait_echo_end.simps) (simp add: gpio_input_def time_time_def)
    ultimately show ?thesis by blast
  next
    case (again w1 t w2)
    from "1.IH" [OF again(1) refl refl again(2) refl again(3) again(4)]
    obtain ins cls where i: "input_script w2 = ins @ input_script w'"
      and c: "clock_script w2 = cls @ clock_script w'"
      and replay: "\<And>v d ri rc. input_script v = ins @ ri \<Longrightarrow>
          clock_script v = map (\<lambda>t. t + d) cls @ rc \<Longrightarrow>
          \<exists>v'. wait_echo_end self (it + d) (t + d) v =
                  Some (case e of Returned x \<Rightarrow> Returned x | Fell_through t \<Rightarrow> Fell_through (t + d), v')
              \<and> input_script v' = ri \<and> clock_script v' = rc"
      by blast
    have "input_script w = (HIGH # ins) @ input_script w'" "clock_script w = (t # cls) @ clock_script w'"
      using gpio_input_SomeD [OF again(1)] time_time_SomeD [OF again(2)] i c by simp_all
    moreover have "\<exists>v'. wait_echo_end self (it + d) (st + d) v =
          Some (case e of Returned x \<Rightarrow> Returned x | Fell_through t \<Rightarrow> Fell_through (t + d), v')
          \<and> input_script v' = ri \<and> clock_script v' = rc"
      if iv: "input_script v = (HIGH # ins) @ ri" and cv: "clock_script v = map (\<lambda>t. t + d) (t # cls) @ rc"
      for v d ri rc
    proof -
      let ?v2 = "v\<lparr>input_script := ins @ ri,
                    trace := trace v @ [GpioInput (priv_gpio_echo self)],
                    clock_script := map (\<lambda>t. t + d) cls @ rc,
                    trace := trace v @ [GpioInput (priv_gpio_echo self), TimeTime]\<rparr>"
      have "wait_echo_end self (it + d) (st + d) v = wait_echo_end self (it + d) (t + d) ?v2"
        using iv cv again(3)
        by (subst wait_echo_end.simps) (simp add: gpio_input_def time_time_def)
      moreover have "\<exists>v'. wait_echo_end self (it + d) (t + d) ?v2 =
                  Some (case e of Returned x \<Rightarrow> Returned x | Fell_through t \<Rightarrow> Fell_through (t + d), v')
              \<and> input_script v' = ri \<and> clock_script v' = rc"
        by (rule replay) simp_all
      ultimately show ?thesis by simp
    qed
    ultimately show ?thesis by blast
  qed
qed

subsection \<open>A loop ends once the clock passes the deadline\<close>

text \<open>
  The clock script holds a timestamp \<open>c\<close> beyond the deadline after the
  timestamps \<open>cs\<close>, and the input script is longer than \<open>cs\<close>. Then the
  loop ends, having taken at most the timestamps up to \<open>c\<close>; all of them
  but the last are within the deadline, and all of them when the loop fell
  through.
\<close>

lemma wait_echo_start_deadline:
  assumes "clock_script w = cs @ c # ts"
    and "c - it > priv_max_wait_time self"
    and "length cs + k < length (input_script w)"
  shows "\<exists>e w' used. wait_echo_start self it st w = Some (e, w') \<and>
           clock_script w = used @ clock_script w' \<and> length used \<le> Suc (length cs) \<and>
           (\<forall>u \<in> set (butlast used). \<not> u - it > priv_max_wait_time self) \<and>
           (case e of Returned x \<Rightarrow> True
            | Fell_through t \<Rightarrow>
                (\<forall>u \<in> set used. \<not> u - it > priv_max_wait_time self) \<and>
                (\<exists>cs'. cs = used @ cs' \<and> length cs' + k \<le> length (input_script w')))"
  using assms
proof (induction cs arbitrary: w st)
  case Nil
  from Nil.prems(3) obtain l ls where inp: "input_script w = l # ls"
    by (cases "input_script w") auto
  let ?w1 = "w\<lparr>input_script := ls, trace := trace w @ [GpioInput (priv_gpio_echo self)]\<rparr>"
  let ?w2 = "?w1\<lparr>clock_script := ts, trace := trace ?w1 @ [TimeTime]\<rparr>"
  show ?case
  proof (cases l)
    case HIGH
    have "wait_echo_start self it st w = Some (Fell_through st, ?w1)"
      using inp HIGH by (subst wait_echo_start.simps) (simp add: gpio_input_Cons)
    moreover have "clock_script w = [] @ clock_script ?w1" by simp
    moreover have "length ([] :: real list) + k \<le> length (input_script ?w1)"
      using Nil.prems(3) inp by simp
    ultimately show ?thesis by fastforce
  next
    case LOW
    have "wait_echo_start self it st w = Some (Returned NaN, ?w2)"
      using inp LOW Nil.prems(1,2)
      by (subst wait_echo_start.simps) (simp add: gpio_input_Cons time_time_Cons)
    moreover have "clock_script w = [c] @ clock_script ?w2"
      using Nil.prems(1) by simp
    ultimately show ?thesis by fastforce
  qed
next
  case (Cons a cs)
  from Cons.prems(3) obtain l ls where inp: "input_script w = l # ls"
    by (cases "input_script w") auto
  let ?w1 = "w\<lparr>input_script := ls, trace := trace w @ [GpioInput (priv_gpio_echo self)]\<rparr>"
  let ?w2 = "?w1\<lparr>clock_script := cs @ c # ts, trace := trace ?w1 @ [TimeTime]\<rparr>"
  show ?case
  proof (cases l)
    case HIGH
    have "wait_echo_start self it st w = Some (Fell_through st, ?w1)"
      using inp HIGH by (subst wait_echo_start.simps) (simp add: gpio_input_Cons)
    moreover have "clock_script w = [] @ clock_script ?w1" by simp
    moreover have "a # cs = [] @ (a # cs) \<and> length (a # cs) + k \<le> length (input_script ?w1)"
      using Cons.prems(3) inp by simp
    ultimately show ?thesis by fastforce
  next
    case LOW
    show ?thesis
    proof (cases "a - it > priv_max_wait_time self")
      case True
      have "wait_echo_start self it st w = Some (Returned NaN, ?w2)"
        using inp LOW Cons.prems(1) True
        by (subst wait_echo_start.simps) (simp add: gpio_input_Cons time_time_Cons)
      moreover have "clock_script w = [a] @ clock_script ?w2"
        using Cons.prems(1) by simp
      ultimately show ?thesis by fastforce
    next
      case False
      have step: "wait_echo_start self it st w = wait_echo_start self it a ?w2"
        using inp LOW Cons.prems(1) False
        by (subst wait_echo_start.simps) (simp add: gpio_input_Cons time_time_Cons)
      have "clock_script ?w2 = cs @ c # ts" "length cs + k < length (input_script ?w2)"
        using Cons.prems(3) inp by simp_all
      from Cons.IH [OF this(1) Cons.prems(2) this(2), of a]
      obtain e w' used where run: "wait_echo_start self it a ?w2 = Some (e, w')"
        and used: "cs @ c # ts = used @ clock_script w'" "length used \<le> Suc (length cs)"
        and early: "\<forall>u \<in> set (butlast used). \<not> u - it > priv_max_wait_time self"
        and fell: "case e of Returned x \<Rightarrow> True
            | Fell_through t \<Rightarrow>
                (\<forall>u \<in> set used. \<not> u - it > priv_max_wait_time self) \<and>
                (\<exists>cs'. cs = used @ cs' \<and> length cs' + k \<le> length (input_script w'))"
        by auto
      have "clock_script w = (a # used) @ clock_script w'"
        using Cons.prems(1) used(1) by simp
      moreover have "length (a # used) \<le> Suc (length (a # cs))"
        using used(2) by simp
      moreover have "\<forall>u \<in> set (butlast (a # used)). \<not> u - it > priv_max_wait_time self"
        using early False by (cases used) auto
      moreover have "case e of Returned x \<Rightarrow> True
            | Fell_through t \<Rightarrow>
                (\<forall>u \<in> set (a # used). \<not> u - it > priv_max_wait_time self) \<and>
                (\<exists>cs'. a # cs = (a # used) @ cs' \<and> length cs' + k \<le> length (input_script w'))"
        using fell False by (cases e) auto
      ultimately show ?thesis
        unfolding step using run by blast
    qed
  qed
qed

lemma wait_echo_end_deadline:
  assumes "clock_script w = cs @ c # ts"
    and "c - it > priv_max_wait_time self"
    and "length cs + k < length (input_script w)"
  shows "\<exists>e w' used. wait_echo_end self it st w = Some (e, w') \<and>
           clock_script w = used @ clock_script w' \<and> length used \<le> Suc (length cs) \<and>
           (\<forall>u \<in> set (butlast used). \<not> u - it > priv_max_wait_time self) \<and>
           (case e of Returned x \<Rightarrow> True
            | Fell_through t \<Rightarrow>
                (\<forall>u \<in> set used. \<not> u - it > priv_max_wait_time self) \<and>
                (\<exists>cs'. cs = used @ cs' \<and> length cs' + k \<le> length (input_script w')))"
  using assms
proof (induction cs arbitrary: w st)
  case Nil
  from Nil.prems(3) obtain l ls where inp: "input_script w = l # ls"
    by (cases "input_script w") auto
  let ?w1 = "w\<lparr>input_script := ls, trace := trace w @ [GpioInput (priv_gpio_echo self)]\<rparr>"
  let ?w2 = "?w1\<lparr>clock_script := ts, trace := trace ?w1 @ [TimeTime]\<rparr>"
  show ?case
  proof (cases l)
    case LOW
    have "wait_echo_end self it st w = Some (Fell_through st, ?w1)"
      using inp LOW by (subst wait_echo_end.simps) (simp add: gpio_input_Cons)
    moreover have "clock_script w = [] @ clock_script ?w1" by simp
    moreover have "length ([] :: real list) + k \<le> length (input_script ?w1)"
      using Nil.prems(3) inp by simp
    ultimately show ?thesis by fastforce
  next
    case HIGH
    have "wait_echo_end self it st w = Some (Returned (priv_max_range self), ?w2)"
      using inp HIGH Nil.prems(1,2)
      by (subst wait_echo_end.simps) (simp add: gpio_input_Cons time_time_Cons)
    moreover have "clock_script w = [c] @ clock_script ?w2"
      using Nil.prems(1) by simp
    ultimately show ?thesis by fastforce
  qed
next
  case (Cons a cs)
  from Cons.prems(3) obtain l ls where inp: "input_script w = l # ls"
    by (cases "input_script w") auto
  let ?w1 = "w\<lparr>input_script := ls, trace := trace w @ [GpioInput (priv_gpio_echo self)]\<rparr>"
  let ?w2 = "?w1\<lparr>clock_script := cs @ c # ts, trace := trace ?w1 @ [TimeTime]\<rparr>"
  show ?case
  proof (cases l)
    case LOW
    have "wait_echo_end self it st w = Some (Fell_through st, ?w1)"
      using inp LOW by (subst wait_echo_end.simps) (simp add: gpio_input_Cons)
    moreover have "clock_script w = [] @ clock_script ?w1" by simp
    moreover have "a # cs = [] @ (a # cs) \<and> length (a # cs) + k \<le> length (input_script ?w1)"
      using Cons.prems(3) inp by simp
    ultimately show ?thesis by fastforce
  next
    case HIGH
    show ?thesis
    proof (cases "a - it > priv_max_wait_time self")
      case True
      have "wait_echo_end self it st w = Some (Returned (priv_max_range self), ?w2)"
        using inp HIGH Cons.prems(1) True
        by (subst wait_echo_end.simps) (simp add: gpio_input_Cons time_time_Cons)
      moreover have "clock_script w = [a] @ clock_script ?w2"
        using Cons.prems(1) by simp
      ultimately show ?thesis by fastforce
    next
      case False
      have step: "wait_echo_end self it st w = wait_echo_end self it a ?w2"
        using inp HIGH Cons.prems(1) False
        by (subst wait_echo_end.simps) (simp add: gpio_input_Cons time_time_Cons)
      have "clock_script ?w2 = cs @ c # ts" "length cs + k < length (input_script ?w2)"
        using Cons.prems(3) inp by simp_all
      from Cons.IH [OF this(1) Cons.prems(2) this(2), of a]
      obtain e w' used where run: "wait_echo_end self it a ?w2 = Some (e, w')"
        and used: "cs @ c # ts = used @ clock_script w'" "length used \<le> Suc (length cs)"
        and early: "\<forall>u \<in> set (butlast used). \<not> u - it > priv_max_wait_time self"
        and fell: "case e of Returned x \<Rightarrow> True
            | Fell_through t \<Rightarrow>
                (\<forall>u \<in> set used. \<not> u - it > priv_max_wait_time self) \<and>
                (\<exists>cs'. cs = used @ cs' \<and> length cs' + k \<le> length (input_script w'))"
        by auto
      have "clock_script w = (a # used) @ clock_script w'"
        using Cons.prems(1) used(1) by simp
      moreover have "length (a # used) \<le> Suc (length (a # cs))"
        using used(2) by simp
      moreover have "\<forall>u \<in> set (butlast (a # used)). \<not> u - it > priv_max_wait_time self"
        using early False by (cases used) auto
      moreover have "case e of Returned x \<Rightarrow> True
            | Fell_through t \<Rightarrow>
                (\<forall>u \<in> set (a # used). \<not> u - it > priv_max_wait_time self) \<and>
                (\<exists>cs'. a # cs = (a # used) @ cs' \<and> length cs' + k \<le> length (input_script w'))"
        using fell False by (cases e) auto
      ultimately show ?thesis
        unfolding step using run by blast
    qed
  qed
qed

subsection \<open>The stored bounds and the loops\<close>

text \<open>
  The loops read the echo pin and the wait time of the object; the bounds
  only decide which value the second loop returns on its timeout.
\<close>

lemma wait_echo_start_bounds:
  "wait_echo_start (self\<lparr>priv_min_range := a, priv_max_range := b\<rparr>) it st w =
   wait_echo_start self it st w"
proof (induction self it st w rule: wait_echo_start.induct)
  case (1 self it st w)
  show ?case
    by (subst wait_echo_start.simps [of self],
        subst wait_echo_start.simps [of "self\<lparr>priv_min_range := a, priv_max_range := b\<rparr>"])
       (auto split: option.splits simp: "1.IH")
qed

lemma wait_echo_end_bounds:
  "wait_echo_end (self\<lparr>priv_min_range := a, priv_max_range := b\<rparr>) it st w =
   map_option (\<lambda>(e, w'). (case e of Returned v \<Rightarrow> Returned b | Fell_through t \<Rightarrow> Fell_through t, w'))
     (wait_echo_end self it st w)"
proof (induction self it st w rule: wait_echo_end.induct)
  case (1 self it st w)
  show ?case
    by (subst wait_echo_end.simps [of self],
        subst wait_echo_end.simps [of "self\<lparr>priv_min_range := a, priv_max_range := b\<rparr>"])
       (auto split: option.splits simp: "1.IH")
qed

lemma get_range_bounds:
  "get_range (self\<lparr>priv_min_range := a, priv_max_range := b\<rparr>) w = None \<longleftrightarrow>
   get_range self w = None"
proof (cases "length (clock_script w) < 3")
  case True
  then show ?thesis by (simp add: get_range_short_clock)
next
  case False
  then have "3 \<le> length (clock_script w)" by simp
  then obtain t0 t1 t2 ts where cl: "clock_script w = t0 # t1 # t2 # ts"
    by (auto simp: numeral_3_eq_3 Suc_le_length_iff)
  have at: "after_trigger (self\<lparr>priv_min_range := a, priv_max_range := b\<rparr>) w ts = after_trigger self w ts"
    by (simp add: after_trigger_def)
  show ?thesis
    unfolding get_range_unfold [OF cl] wait_echo_start_bounds wait_echo_end_bounds at
    by (auto split: option.splits loop_exit.splits)
qed

section \<open>Claims\<close>

subsection \<open>Construction\<close>

text \<open>
  C6. A construction that succeeds was given a number \<open>x\<close> as
  \<^verbatim>\<open>max_range\<close> and stores \<open>\<lceil>x / 343 * 1000\<rceil> / 1000\<close> in
  \<^verbatim>\<open>__max_wait_time\<close>. The two methods that follow construction,
  \<^verbatim>\<open>init_hw\<close> and \<^verbatim>\<open>get_range\<close>, return the object with this
  field unchanged.
\<close>

theorem init_max_wait_time:
  assumes "init n tr ec mn mx fov = Inr self"
  shows "\<exists>x. mx = Num x \<and> priv_max_wait_time self = real_of_int \<lceil>x / 343 * 1000\<rceil> / 1000 \<and>
           priv_max_wait_time (fst (init_hw self w0)) = priv_max_wait_time self \<and>
           (\<forall>w r self' w'. get_range self w = Some (r, self', w') \<longrightarrow>
               priv_max_wait_time self' = priv_max_wait_time self)"
proof -
  from init_Inr [OF assms] obtain x where "mx = Num x"
    "priv_max_wait_time self = real_of_int \<lceil>x / 343 * 1000\<rceil> / 1000" by auto
  moreover have "priv_max_wait_time (fst (init_hw self w0)) = priv_max_wait_time self"
    by (simp add: init_hw_def Let_def)
  moreover have "priv_max_wait_time self' = priv_max_wait_time self"
    if "get_range self w = Some (r, self', w')" for w r self' w'
    using that by (cases rule: get_range_cases) simp_all
  ultimately show ?thesis by blast
qed

theorem init_max_wait_time_witness:
  "init ''right'' 15 14 (Num (5 / 100)) (Num 4) (Some (Num 0)) = Inr sonar_right \<and>
   priv_max_wait_time sonar_right = real_of_int \<lceil>4 / 343 * 1000 :: real\<rceil> / 1000 \<and>
   priv_max_wait_time sonar_right = 12 / 1000 \<and>
   priv_max_wait_time (fst (init_hw sonar_right (scripted [] []))) = priv_max_wait_time sonar_right \<and>
   get_range sonar_right (scripted pulse_inputs pulse_clock)
     = Some (Num (571095 / 1000000), sonar_right, scripted [] [] \<lparr>trace := pulse_trace\<rparr>)"
proof -
  have "priv_max_wait_time sonar_right = 12 / 1000"
    by (simp add: sonar_right_def)
  with init_max_wait_time [OF init_sonar_right, of "scripted [] []"] init_sonar_right pulse_run0
  show ?thesis by auto
qed

text \<open>
  C9. After a construction that succeeds, the property
  \<^verbatim>\<open>field_of_view\<close> returns the stored attribute. The attribute is nan
  when no field of view was passed; when a value in degrees was passed it is
  that value converted by \<^verbatim>\<open>math.radians\<close>, which is \<open>x * pi / 180\<close>
  for a number \<open>x\<close>.
\<close>

theorem init_field_of_view:
  assumes "init n tr ec mn mx fov = Inr self"
  shows "field_of_view self = priv_field_of_view self \<and>
         (fov = None \<longrightarrow> priv_field_of_view self = NaN) \<and>
         (\<forall>deg. fov = Some deg \<longrightarrow> priv_field_of_view self = radians deg) \<and>
         (\<forall>x. fov = Some (Num x) \<longrightarrow> priv_field_of_view self = Num (x * pi / 180))"
  using init_Inr [OF assms] by (auto simp: field_of_view_def)

theorem init_field_of_view_witness:
  "init ''right'' 15 14 (Num (5 / 100)) (Num 4) (Some (Num 90))
     = Inr (sonar_right\<lparr>priv_field_of_view := Num (pi / 2)\<rparr>) \<and>
   field_of_view (sonar_right\<lparr>priv_field_of_view := Num (pi / 2)\<rparr>) = Num (90 * pi / 180) \<and>
   init ''right'' 15 14 (Num (5 / 100)) (Num 4) None
     = Inr (sonar_right\<lparr>priv_field_of_view := NaN\<rparr>) \<and>
   field_of_view (sonar_right\<lparr>priv_field_of_view := NaN\<rparr>) = NaN"
proof -
  have a: "init ''right'' 15 14 (Num (5 / 100)) (Num 4) (Some (Num 90))
     = Inr (sonar_right\<lparr>priv_field_of_view := Num (pi / 2)\<rparr>)"
    by (simp add: init_def sonar_right_def isnan_def max_wait_time_of_small Let_def)
  have b: "init ''right'' 15 14 (Num (5 / 100)) (Num 4) None
     = Inr (sonar_right\<lparr>priv_field_of_view := NaN\<rparr>)"
    by (simp add: init_def sonar_right_def isnan_def max_wait_time_of_small Let_def)
  from init_field_of_view [OF a] init_field_of_view [OF b] a b show ?thesis by auto
qed

text \<open>
  C2, as the code has it. The constructor validates nothing. Whatever
  \<^verbatim>\<open>min_range\<close> is, and however the two bounds compare, construction
  succeeds and stores both bounds as given whenever \<^verbatim>\<open>max_range\<close> is a
  number whose product \<^verbatim>\<open>max_range / 343.0 * 1000\<close> stays within the
  doubles. It fails with \<^verbatim>\<open>ValueError\<close> when \<^verbatim>\<open>max_range\<close> is nan,
  and with \<^verbatim>\<open>OverflowError\<close> when \<^verbatim>\<open>max_range\<close> is an infinity or
  so large that the product is one (above about 6.17e307 in magnitude):
  the errors \<^verbatim>\<open>math.ceil\<close> raises on the product. Nor does
  \<^verbatim>\<open>get_range\<close> look at the bounds before it returns: whether it
  returns is the same for any two bounds stored in the object.
\<close>

theorem init_no_validation:
  "(\<forall>x. mx = Num x \<and> \<bar>x / 343 * 1000\<bar> \<le> float_max \<longrightarrow>
        (\<exists>self. init n tr ec mn mx fov = Inr self \<and>
           priv_min_range self = mn \<and> priv_max_range self = mx)) \<and>
   (mx = NaN \<longrightarrow> init n tr ec mn mx fov = Inl ValueError) \<and>
   (mx = PInf \<or> mx = NInf \<or> (\<exists>x. mx = Num x \<and> float_max < \<bar>x / 343 * 1000\<bar>) \<longrightarrow>
        init n tr ec mn mx fov = Inl OverflowError) \<and>
   (get_range (obj\<lparr>priv_min_range := a, priv_max_range := b\<rparr>) w = None \<longleftrightarrow>
    get_range obj w = None)"
proof -
  have "\<exists>self. init n tr ec mn mx fov = Inr self \<and> priv_min_range self = mn \<and> priv_max_range self = mx"
    if "mx = Num x" "\<bar>x / 343 * 1000\<bar> \<le> float_max" for x
    using that by (simp add: init_def Let_def max_wait_time_of_Num)
  moreover have "init n tr ec mn mx fov = Inl ValueError" if "mx = NaN"
    using that by (simp add: init_def Let_def)
  moreover have "init n tr ec mn mx fov = Inl OverflowError"
    if "mx = PInf \<or> mx = NInf \<or> (\<exists>x. mx = Num x \<and> float_max < \<bar>x / 343 * 1000\<bar>)"
    using that by (auto simp: init_def Let_def max_wait_time_of_Num)
  ultimately show ?thesis
    using get_range_bounds [where self = obj and a = a and b = b and w = w] by blast
qed

theorem init_no_validation_witness:
  "\<bar>(5 / 100) / 343 * 1000 :: real\<bar> \<le> float_max \<and>
   map_sum id (\<lambda>self. (priv_min_range self, priv_max_range self))
     (init ''right'' 15 14 (Num 4) (Num (5 / 100)) None) = Inr (Num 4, Num (5 / 100)) \<and>
   init ''right'' 15 14 (Num (5 / 100)) NaN None = Inl ValueError \<and>
   init ''right'' 15 14 (Num (5 / 100)) PInf None = Inl OverflowError \<and>
   init ''right'' 15 14 (Num (5 / 100)) NInf None = Inl OverflowError \<and>
   float_max < \<bar>10 ^ 308 / 343 * 1000 :: real\<bar> \<and>
   init ''right'' 15 14 (Num (5 / 100)) (Num (10 ^ 308)) None = Inl OverflowError \<and>
   get_range (sonar_right\<lparr>priv_min_range := Num 4, priv_max_range := Num (5 / 100)\<rparr>)
     (scripted pulse_inputs pulse_clock) \<noteq> None"
proof -
  have small: "\<bar>(5 / 100) / 343 * 1000 :: real\<bar> \<le> float_max"
    using float_max_ge by simp
  have "(2 :: real) ^ 1024 \<le> \<bar>10 ^ 308 / 343 * 1000\<bar>"
    by simp
  with float_max_less have large: "float_max < \<bar>10 ^ 308 / 343 * 1000 :: real\<bar>"
    by (rule less_le_trans)
  have run: "get_range sonar_right (scripted pulse_inputs pulse_clock) \<noteq> None"
    by (simp add: pulse_run0)
  note inverted = init_no_validation [where mx = "Num (5 / 100)" and n = "''right''"
      and tr = 15 and ec = 14 and mn = "Num 4" and fov = None]
  from inverted [THEN conjunct1, rule_format, of "5 / 100", OF conjI [OF refl small]]
  have a: "map_sum id (\<lambda>self. (priv_min_range self, priv_max_range self))
     (init ''right'' 15 14 (Num 4) (Num (5 / 100)) None) = Inr (Num 4, Num (5 / 100))"
    by auto
  note fails = init_no_validation [where n = "''right''" and tr = 15 and ec = 14
      and mn = "Num (5 / 100)" and fov = None]
  from fails [where mx = NaN, THEN conjunct2, THEN conjunct1]
  have b: "init ''right'' 15 14 (Num (5 / 100)) NaN None = Inl ValueError"
    by simp
  from fails [where mx = PInf, THEN conjunct2, THEN conjunct2, THEN conjunct1]
  have c: "init ''right'' 15 14 (Num (5 / 100)) PInf None = Inl OverflowError"
    by simp
  from fails [where mx = NInf, THEN conjunct2, THEN conjunct2, THEN conjunct1]
  have d: "init ''right'' 15 14 (Num (5 / 100)) NInf None = Inl OverflowError"
    by simp
  from fails [where mx = "Num (10 ^ 308)", THEN conjunct2, THEN conjunct2, THEN conjunct1] large
  have e: "init ''right'' 15 14 (Num (5 / 100)) (Num (10 ^ 308)) None = Inl OverflowError"
    by blast
  from fails [where obj = sonar_right and a = "Num 4" and b = "Num (5 / 100)"
      and w = "scripted pulse_inputs pulse_clock", THEN conjunct2, THEN conjunct2, THEN conjunct2] run
  have f: "get_range (sonar_right\<lparr>priv_min_range := Num 4, priv_max_range := Num (5 / 100)\<rparr>)
     (scripted pulse_inputs pulse_clock) \<noteq> None"
    by blast
  from small a b c d large e f show ?thesis by blast
qed

text \<open>
  Inverted bounds, negative bounds and a nan \<^verbatim>\<open>min_range\<close> are all
  accepted: each of these constructions returns an object.
\<close>

theorem unchecked_bounds_counterexample:
  "init ''right'' 15 14 (Num 4) (Num (5 / 100)) None =
     Inr \<lparr>priv_name = ''right'', priv_gpio_trigger = 15, priv_gpio_echo = 14,
          priv_min_range = Num 4, priv_max_range = Num (5 / 100),
          priv_field_of_view = NaN, priv_max_wait_time = 1 / 1000\<rparr> \<and>
   init ''right'' 15 14 (Num (- 2)) (Num (- 1)) None =
     Inr \<lparr>priv_name = ''right'', priv_gpio_trigger = 15, priv_gpio_echo = 14,
          priv_min_range = Num (- 2), priv_max_range = Num (- 1),
          priv_field_of_view = NaN, priv_max_wait_time = - 2 / 1000\<rparr> \<and>
   init ''right'' 15 14 NaN (Num 4) None =
     Inr \<lparr>priv_name = ''right'', priv_gpio_trigger = 15, priv_gpio_echo = 14,
          priv_min_range = NaN, priv_max_range = Num 4,
          priv_field_of_view = NaN, priv_max_wait_time = 12 / 1000\<rparr>"
  by (simp add: init_def Let_def isnan_def max_wait_time_of_small)

subsection \<open>The trigger pulse\<close>

text \<open>
  C7. The calls a returning \<^verbatim>\<open>get_range\<close> makes start with
  \<^verbatim>\<open>GPIO.output(trigger, HIGH)\<close>, \<^verbatim>\<open>time.sleep(0.00001)\<close>,
  \<^verbatim>\<open>GPIO.output(trigger, LOW)\<close>, in this order. Every later call reads
  the clock or the echo line: the first echo read comes after the pulse and
  nothing is written to the trigger line again.
\<close>

theorem get_range_trigger_pulse:
  assumes "get_range self w = Some (r, self', w')"
  shows "\<exists>evs. trace w' = trace w @ [GpioOutput (priv_gpio_trigger self) HIGH,
                                       TimeSleep (1 / 100000),
                                       GpioOutput (priv_gpio_trigger self) LOW] @ evs \<and>
               set evs \<subseteq> {TimeTime, GpioInput (priv_gpio_echo self)}"
proof -
  have pre: "trace (after_trigger self w ts) =
      trace w @ [GpioOutput (priv_gpio_trigger self) HIGH, TimeSleep (1 / 100000),
                 GpioOutput (priv_gpio_trigger self) LOW] @ [TimeTime, TimeTime, TimeTime]" for ts
    by (simp add: after_trigger_def)
  from assms show ?thesis
  proof (cases rule: get_range_cases)
    case (no_echo t0 t1 t2 ts)
    from wait_echo_start_trace [OF no_echo(2)] pre [of ts] show ?thesis by auto
  next
    case (max_range t0 t1 t2 ts start_time w7)
    from wait_echo_start_trace [OF max_range(2)] wait_echo_end_trace [OF max_range(3)] pre [of ts]
    show ?thesis by auto
  next
    case (measured t0 t1 t2 ts start_time w7 stop_time)
    from wait_echo_start_trace [OF measured(2)] wait_echo_end_trace [OF measured(3)] pre [of ts]
    show ?thesis by auto
  qed
qed

theorem get_range_trigger_pulse_witness:
  "get_range sonar_right (scripted pulse_inputs pulse_clock)
     = Some (Num (571095 / 1000000), sonar_right, scripted [] [] \<lparr>trace := pulse_trace\<rparr>) \<and>
   (\<exists>evs. pulse_trace = [GpioOutput 15 HIGH, TimeSleep (1 / 100000), GpioOutput 15 LOW] @ evs \<and>
          set evs \<subseteq> {TimeTime, GpioInput 14})"
  using get_range_trigger_pulse [OF pulse_run0] pulse_run0
  by (simp add: scripted_def sonar_right_def)

subsection \<open>Converting the pulse width\<close>

text \<open>
  C1. The echo line reads low while the \<open>cs\<close> are sampled, then high while
  the \<open>ds\<close> are sampled, then low, and no sample is later than
  \<^verbatim>\<open>__max_wait_time\<close> after the reference timestamp \<open>t2\<close>. The pulse
  width is the last timestamp taken while the line was high minus the last
  one taken while it was low (\<open>stop_time\<close> minus \<open>start_time\<close>, which
  keep the call's first two timestamps \<open>t1\<close> and \<open>t0\<close> when their loop
  took none). Then \<^verbatim>\<open>get_range\<close> returns the width
  times 171.5, limited to the range bounds: exactly that product when it
  lies between them, \<^verbatim>\<open>min_range\<close> when it is below, and
  \<^verbatim>\<open>max_range\<close> when it is above.
\<close>

theorem get_range_pulse:
  assumes "input_script w = replicate (length cs) LOW @ replicate (Suc (length ds)) HIGH @ LOW # es"
    and "clock_script w = t0 # t1 # t2 # cs @ ds @ ts"
    and "\<forall>c \<in> set cs. \<not> c - t2 > priv_max_wait_time self"
    and "\<forall>d \<in> set ds. \<not> d - t2 > priv_max_wait_time self"
    and "width = last (t1 # ds) - last (t0 # cs)"
  shows "\<exists>r w'. get_range self w = Some (r, self, w') \<and>
           (\<forall>lo hi. priv_min_range self = Num lo \<and> priv_max_range self = Num hi \<and>
                    lo / 171.5 \<le> width \<and> width \<le> hi / 171.5 \<longrightarrow> r = Num (width * 171.5)) \<and>
           (pf_less (Num (width * 171.5)) (priv_min_range self) \<longrightarrow> r = priv_min_range self) \<and>
           (pf_le (priv_min_range self) (priv_max_range self) \<and>
            pf_less (priv_max_range self) (Num (width * 171.5)) \<longrightarrow> r = priv_max_range self)"
proof -
  let ?w6 = "after_trigger self w (cs @ ds @ ts)"
  let ?x = "Num (width * HALF_SONIC_SPEED)"
  have "input_script ?w6 = replicate (length cs) LOW @ HIGH # (replicate (length ds) HIGH @ LOW # es)"
    using assms(1) by (simp add: after_trigger_def)
  moreover have "clock_script ?w6 = cs @ (ds @ ts)"
    by (simp add: after_trigger_def)
  ultimately obtain w7 where
    s1: "wait_echo_start self t2 t0 ?w6 = Some (Fell_through (last (t0 # cs)), w7)"
    and i7: "input_script w7 = replicate (length ds) HIGH @ LOW # es"
    and c7: "clock_script w7 = ds @ ts"
    using wait_echo_start_rises [OF _ _ assms(3)] by blast
  obtain w8 where s2: "wait_echo_end self t2 t1 w7 = Some (Fell_through (last (t1 # ds)), w8)"
    using wait_echo_end_falls [OF i7 c7 assms(4)] by blast
  have run: "get_range self w = Some (limit_range self ?x, self, w8)"
    using s1 s2 assms(5) by (simp add: get_range_unfold [OF assms(2)])
  have half: "width * 171.5 = width * HALF_SONIC_SPEED"
    by (simp add: HALF_SONIC_SPEED_def SONIC_SPEED_def)
  have "\<forall>lo hi. priv_min_range self = Num lo \<and> priv_max_range self = Num hi \<and>
          lo / 171.5 \<le> width \<and> width \<le> hi / 171.5 \<longrightarrow> limit_range self ?x = Num (width * 171.5)"
    using limit_range_cases [of ?x self] unfolding half [symmetric]
    by (auto simp: pf_le_def field_simps)
  moreover have "pf_less (Num (width * 171.5)) (priv_min_range self) \<longrightarrow>
          limit_range self ?x = priv_min_range self"
    using limit_range_cases [of ?x self] unfolding half by blast
  moreover have "pf_le (priv_min_range self) (priv_max_range self) \<and>
            pf_less (priv_max_range self) (Num (width * 171.5)) \<longrightarrow>
          limit_range self ?x = priv_max_range self"
    using limit_range_cases [of ?x self] unfolding half by blast
  ultimately show ?thesis using run by blast
qed

theorem get_range_pulse_witness:
  "map_option fst (get_range sonar_right (scripted pulse_inputs pulse_clock))
     = Some (Num (571095 / 1000000)) \<and>
   map_option fst (get_range sonar_right
      (scripted [LOW, HIGH, HIGH, LOW] [0, 0, 0, 1 / 1000, 11 / 10000]))
     = Some (Num (5 / 100)) \<and>
   map_option fst (get_range sonar_right
      (scripted [HIGH, HIGH, LOW] [0, 0, 30 / 1000, 35 / 1000]))
     = Some (Num 4)"
proof -
  have mw: "priv_max_wait_time sonar_right = 12 / 1000"
    and mn: "priv_min_range sonar_right = Num (5 / 100)"
    and mx: "priv_max_range sonar_right = Num 4"
    by (simp_all add: sonar_right_def)
  txt \<open>A pulse of 3.33 ms: 0.571095 m, between the bounds.\<close>
  let ?w = "scripted pulse_inputs pulse_clock"
  let ?cs = "[1 / 1000 :: real]"
  let ?ds = "[2 / 1000, 433 / 100000 :: real]"
  have "input_script ?w = replicate (length ?cs) LOW @ replicate (Suc (length ?ds)) HIGH @ LOW # []"
    and "clock_script ?w = 0 # 0 # 0 # ?cs @ ?ds @ []"
    and "\<forall>c \<in> set ?cs. \<not> c - 0 > priv_max_wait_time sonar_right"
    and "\<forall>d \<in> set ?ds. \<not> d - 0 > priv_max_wait_time sonar_right"
    and "(333 / 100000 :: real) = last (0 # ?ds) - last (0 # ?cs)"
    by (simp_all add: scripted_def pulse_inputs_def pulse_clock_def mw)
  from get_range_pulse [OF this]
  obtain r w' where run: "get_range sonar_right ?w = Some (r, sonar_right, w')"
    and exact: "\<forall>lo hi. priv_min_range sonar_right = Num lo \<and> priv_max_range sonar_right = Num hi \<and>
                  lo / 171.5 \<le> 333 / 100000 \<and> 333 / 100000 \<le> hi / 171.5
                  \<longrightarrow> r = Num (333 / 100000 * 171.5)"
    by blast
  have "(5 / 100) / 171.5 \<le> (333 / 100000 :: real) \<and> (333 / 100000 :: real) \<le> 4 / 171.5"
    by simp
  with exact mn mx have "r = Num (333 / 100000 * 171.5)" by blast
  with run have a: "map_option fst (get_range sonar_right ?w) = Some (Num (571095 / 1000000))"
    by simp
  txt \<open>A pulse of 0.1 ms: 0.01715 m, below \<^verbatim>\<open>min_range\<close>.\<close>
  let ?w = "scripted [LOW, HIGH, HIGH, LOW] [0, 0, 0, 1 / 1000, 11 / 10000]"
  let ?ds = "[11 / 10000 :: real]"
  have "input_script ?w = replicate (length ?cs) LOW @ replicate (Suc (length ?ds)) HIGH @ LOW # []"
    and "clock_script ?w = 0 # 0 # 0 # ?cs @ ?ds @ []"
    and "\<forall>c \<in> set ?cs. \<not> c - 0 > priv_max_wait_time sonar_right"
    and "\<forall>d \<in> set ?ds. \<not> d - 0 > priv_max_wait_time sonar_right"
    and "(1 / 10000 :: real) = last (0 # ?ds) - last (0 # ?cs)"
    by (simp_all add: scripted_def mw)
  from get_range_pulse [OF this]
  obtain r w' where run: "get_range sonar_right ?w = Some (r, sonar_right, w')"
    and below: "pf_less (Num (1 / 10000 * 171.5)) (priv_min_range sonar_right)
                  \<longrightarrow> r = priv_min_range sonar_right"
    by blast
  from below have "r = Num (5 / 100)" by (simp add: mn)
  with run have b: "map_option fst (get_range sonar_right ?w) = Some (Num (5 / 100))"
    by simp
  txt \<open>
    The line is high at the first poll, so the pulse is measured from the
    first timestamp of the call, 30 ms before the reference timestamp, to
    35 ms: 6.0025 m, above \<^verbatim>\<open>max_range\<close>.
  \<close>
  let ?w = "scripted [HIGH, HIGH, LOW] [0, 0, 30 / 1000, 35 / 1000]"
  let ?cs = "[] :: real list"
  let ?ds = "[35 / 1000 :: real]"
  have "input_script ?w = replicate (length ?cs) LOW @ replicate (Suc (length ?ds)) HIGH @ LOW # []"
    and "clock_script ?w = 0 # 0 # (30 / 1000) # ?cs @ ?ds @ []"
    and "\<forall>c \<in> set ?cs. \<not> c - 30 / 1000 > priv_max_wait_time sonar_right"
    and "\<forall>d \<in> set ?ds. \<not> d - 30 / 1000 > priv_max_wait_time sonar_right"
    and "(35 / 1000 :: real) = last (0 # ?ds) - last (0 # ?cs)"
    by (simp_all add: scripted_def mw)
  from get_range_pulse [OF this]
  obtain r w' where run: "get_range sonar_right ?w = Some (r, sonar_right, w')"
    and above: "pf_le (priv_min_range sonar_right) (priv_max_range sonar_right) \<and>
                pf_less (priv_max_range sonar_right) (Num (35 / 1000 * 171.5))
                  \<longrightarrow> r = priv_max_range sonar_right"
    by blast
  from above have "r = Num 4" by (simp add: mn mx pf_le_def)
  with run have c: "map_option fst (get_range sonar_right ?w) = Some (Num 4)"
    by simp
  from a b c show ?thesis by blast
qed

subsection \<open>The two timeouts\<close>

text \<open>
  C3. The echo line reads low at every poll up to the one whose timestamp
  \<open>c\<close> is the first to lie more than \<^verbatim>\<open>__max_wait_time\<close> after the
  reference timestamp \<open>t2\<close>. Then \<^verbatim>\<open>get_range\<close> returns
  \<^verbatim>\<open>math.nan\<close> as an ordinary value.
\<close>

theorem get_range_no_echo:
  assumes "input_script w = replicate (Suc (length cs)) LOW @ es"
    and "clock_script w = t0 # t1 # t2 # cs @ c # ts"
    and "\<forall>c' \<in> set cs. \<not> c' - t2 > priv_max_wait_time self"
    and "c - t2 > priv_max_wait_time self"
  shows "\<exists>w'. get_range self w = Some (NaN, self, w')"
proof -
  let ?w6 = "after_trigger self w (cs @ c # ts)"
  have "input_script ?w6 = replicate (Suc (length cs)) LOW @ es"
    using assms(1) by (simp add: after_trigger_def)
  moreover have "clock_script ?w6 = cs @ c # ts"
    by (simp add: after_trigger_def)
  ultimately obtain w7 where "wait_echo_start self t2 t0 ?w6 = Some (Returned NaN, w7)"
    using wait_echo_start_times_out [OF _ _ assms(3) assms(4)] by blast
  then show ?thesis
    by (simp add: get_range_unfold [OF assms(2)])
qed

theorem get_range_no_echo_witness:
  "map_option fst (get_range sonar_right (scripted [LOW, LOW] [0, 0, 0, 5 / 1000, 13 / 1000]))
   = Some NaN"
proof -
  let ?w = "scripted [LOW, LOW] [0, 0, 0, 5 / 1000, 13 / 1000]"
  let ?cs = "[5 / 1000 :: real]"
  have h1: "input_script ?w = replicate (Suc (length ?cs)) LOW @ []"
    by (simp add: scripted_def)
  have h2: "clock_script ?w = 0 # 0 # 0 # ?cs @ (13 / 1000) # []"
    by (simp add: scripted_def)
  have h3: "\<forall>c \<in> set ?cs. \<not> c - 0 > priv_max_wait_time sonar_right"
    by (simp add: sonar_right_def)
  have h4: "13 / 1000 - 0 > priv_max_wait_time sonar_right"
    by (simp add: sonar_right_def)
  from get_range_no_echo [OF h1 h2 h3 h4] show ?thesis by auto
qed

text \<open>
  C4. The echo line has been read high and is still read high at the poll
  whose timestamp \<open>d\<close> is the first to lie more than
  \<^verbatim>\<open>__max_wait_time\<close> after \<open>t2\<close>. Then \<^verbatim>\<open>get_range\<close> returns
  exactly \<^verbatim>\<open>max_range\<close>; for a constructed object this is a number,
  never the nan of the other timeout.
\<close>

theorem get_range_max_range:
  assumes "init n tr ec mn mx fov = Inr self"
    and "input_script w = replicate (length cs) LOW @ replicate (Suc (Suc (length ds))) HIGH @ es"
    and "clock_script w = t0 # t1 # t2 # cs @ ds @ d # ts"
    and "\<forall>c \<in> set cs. \<not> c - t2 > priv_max_wait_time self"
    and "\<forall>d' \<in> set ds. \<not> d' - t2 > priv_max_wait_time self"
    and "d - t2 > priv_max_wait_time self"
  shows "(\<exists>w'. get_range self w = Some (priv_max_range self, self, w')) \<and>
         priv_max_range self = mx \<and> isfinite mx \<and> priv_max_range self \<noteq> NaN"
proof -
  let ?w6 = "after_trigger self w (cs @ ds @ d # ts)"
  have "input_script ?w6 = replicate (length cs) LOW @ HIGH # (replicate (Suc (length ds)) HIGH @ es)"
    using assms(2) by (simp add: after_trigger_def)
  moreover have "clock_script ?w6 = cs @ (ds @ d # ts)"
    by (simp add: after_trigger_def)
  ultimately obtain w7 where
    s1: "wait_echo_start self t2 t0 ?w6 = Some (Fell_through (last (t0 # cs)), w7)"
    and i7: "input_script w7 = replicate (Suc (length ds)) HIGH @ es"
    and c7: "clock_script w7 = ds @ d # ts"
    using wait_echo_start_rises [OF _ _ assms(4)] by blast
  obtain w8 where s2: "wait_echo_end self t2 t1 w7 = Some (Returned (priv_max_range self), w8)"
    using wait_echo_end_times_out [OF i7 c7 assms(5) assms(6)] by blast
  have "get_range self w = Some (priv_max_range self, self, w8)"
    using s1 s2 by (simp add: get_range_unfold [OF assms(3)])
  moreover obtain x where "mx = Num x" "priv_max_range self = Num x"
    using init_Inr [OF assms(1)] by auto
  ultimately show ?thesis by auto
qed

theorem get_range_max_range_witness:
  "init ''right'' 15 14 (Num (5 / 100)) (Num 4) (Some (Num 0)) = Inr sonar_right \<and>
   map_option fst (get_range sonar_right
      (scripted [LOW, HIGH, HIGH, HIGH] [0, 0, 0, 1 / 1000, 5 / 1000, 13 / 1000])) = Some (Num 4) \<and>
   Num 4 \<noteq> NaN"
proof -
  let ?w = "scripted [LOW, HIGH, HIGH, HIGH] [0, 0, 0, 1 / 1000, 5 / 1000, 13 / 1000]"
  let ?cs = "[1 / 1000 :: real]"
  let ?ds = "[5 / 1000 :: real]"
  have h1: "input_script ?w = replicate (length ?cs) LOW @ replicate (Suc (Suc (length ?ds))) HIGH @ []"
    by (simp add: scripted_def)
  have h2: "clock_script ?w = 0 # 0 # 0 # ?cs @ ?ds @ (13 / 1000) # []"
    by (simp add: scripted_def)
  have h3: "\<forall>c \<in> set ?cs. \<not> c - 0 > priv_max_wait_time sonar_right"
    by (simp add: sonar_right_def)
  have h4: "\<forall>d \<in> set ?ds. \<not> d - 0 > priv_max_wait_time sonar_right"
    by (simp add: sonar_right_def)
  have h5: "13 / 1000 - 0 > priv_max_wait_time sonar_right"
    by (simp add: sonar_right_def)
  have mx: "priv_max_range sonar_right = Num 4"
    by (simp add: sonar_right_def)
  from get_range_max_range [OF init_sonar_right h1 h2 h3 h4 h5] mx init_sonar_right
  show ?thesis by auto
qed

subsection \<open>The deadline of the two waits\<close>

text \<open>
  C5, as the code has it. Both loops compare their timestamps with one
  deadline, \<^verbatim>\<open>__max_wait_time\<close> after the reference timestamp \<open>t2\<close>
  taken once after the trigger pulse. If the clock script reaches a timestamp
  \<open>c\<close> beyond that deadline, after the timestamps \<open>cs\<close>, and the input
  script has two readings more than \<open>cs\<close>, then \<^verbatim>\<open>get_range\<close>
  returns; in its loops it has taken at most the timestamps up to \<open>c\<close>,
  and each of them but the last lies within the deadline. So the call
  polls for about \<^verbatim>\<open>__max_wait_time\<close> in all, and the second wait has
  no budget of its own.
\<close>

theorem get_range_deadline:
  assumes "clock_script w = t0 # t1 # t2 # cs @ c # ts"
    and "c - t2 > priv_max_wait_time self"
    and "length cs + 1 < length (input_script w)"
  shows "\<exists>r w' used. get_range self w = Some (r, self, w') \<and>
           clock_script w = t0 # t1 # t2 # used @ clock_script w' \<and>
           length used \<le> Suc (length cs) \<and>
           (\<forall>u \<in> set (butlast used). \<not> u - t2 > priv_max_wait_time self)"
proof -
  let ?w6 = "after_trigger self w (cs @ c # ts)"
  have "clock_script ?w6 = cs @ c # ts" "length cs + 1 < length (input_script ?w6)"
    using assms(3) by (simp_all add: after_trigger_def)
  from wait_echo_start_deadline [OF this(1) assms(2) this(2), of t0]
  obtain e1 w7 used1 where s1: "wait_echo_start self t2 t0 ?w6 = Some (e1, w7)"
    and u1: "cs @ c # ts = used1 @ clock_script w7" "length used1 \<le> Suc (length cs)"
    and early1: "\<forall>u \<in> set (butlast used1). \<not> u - t2 > priv_max_wait_time self"
    and fell1: "case e1 of Returned x \<Rightarrow> True
            | Fell_through t \<Rightarrow>
                (\<forall>u \<in> set used1. \<not> u - t2 > priv_max_wait_time self) \<and>
                (\<exists>cs'. cs = used1 @ cs' \<and> length cs' + 1 \<le> length (input_script w7))"
    by (auto simp: after_trigger_def)
  show ?thesis
  proof (cases e1)
    case (Returned x)
    then have "get_range self w = Some (x, self, w7)"
      using s1 by (simp add: get_range_unfold [OF assms(1)])
    then show ?thesis
      using assms(1) u1 early1 by auto
  next
    case (Fell_through start_time)
    with fell1 obtain cs' where all1: "\<forall>u \<in> set used1. \<not> u - t2 > priv_max_wait_time self"
      and cs': "cs = used1 @ cs'" "length cs' + 0 < length (input_script w7)"
      by auto
    have c7: "clock_script w7 = cs' @ c # ts"
      using u1(1) cs'(1) by simp
    from wait_echo_end_deadline [OF c7 assms(2) cs'(2), of t1]
    obtain e2 w8 used2 where s2: "wait_echo_end self t2 t1 w7 = Some (e2, w8)"
      and u2: "clock_script w7 = used2 @ clock_script w8" "length used2 \<le> Suc (length cs')"
      and early2: "\<forall>u \<in> set (butlast used2). \<not> u - t2 > priv_max_wait_time self"
      by auto
    have "\<exists>r. get_range self w = Some (r, self, w8)"
      using s1 s2 Fell_through by (cases e2) (simp_all add: get_range_unfold [OF assms(1)])
    moreover have "clock_script w = t0 # t1 # t2 # (used1 @ used2) @ clock_script w8"
      using assms(1) u1(1) u2(1) by simp
    moreover have "length (used1 @ used2) \<le> Suc (length cs)"
      using u2(2) cs'(1) by simp
    moreover have "\<forall>u \<in> set (butlast (used1 @ used2)). \<not> u - t2 > priv_max_wait_time self"
      using all1 early2 by (auto simp: butlast_append dest: in_set_butlastD)
    ultimately show ?thesis by blast
  qed
qed

theorem get_range_deadline_witness:
  "map_option fst (get_range sonar_right (scripted [LOW, HIGH, HIGH] [0, 0, 0, 10 / 1000, 13 / 1000]))
     \<noteq> None"
proof -
  let ?w = "scripted [LOW, HIGH, HIGH] [0, 0, 0, 10 / 1000, 13 / 1000]"
  have h1: "clock_script ?w = 0 # 0 # 0 # [10 / 1000] @ (13 / 1000) # []"
    by (simp add: scripted_def)
  have h2: "13 / 1000 - 0 > priv_max_wait_time sonar_right"
    by (simp add: sonar_right_def)
  have h3: "length [10 / 1000 :: real] + 1 < length (input_script ?w)"
    by (simp add: scripted_def)
  from get_range_deadline [OF h1 h2 h3] show ?thesis by auto
qed

text \<open>
  The sensor waits at most 12 ms. The echo line is read low, with the
  timestamp 10 ms, and then high; the next timestamp, 13 ms, is 3 ms after
  the second wait began and already ends the call with \<^verbatim>\<open>max_range\<close>.
\<close>

theorem second_wait_cut_short_counterexample:
  "priv_max_wait_time sonar_right = 12 / 1000 \<and>
   get_range sonar_right (scripted [LOW, HIGH, HIGH] [0, 0, 0, 10 / 1000, 13 / 1000]) =
     Some (Num 4, sonar_right,
       \<lparr>input_script = [], clock_script = [],
        trace = [GpioOutput 15 HIGH, TimeSleep (1 / 100000), GpioOutput 15 LOW,
                 TimeTime, TimeTime, TimeTime,
                 GpioInput 14, TimeTime, GpioInput 14, GpioInput 14, TimeTime]\<rparr>) \<and>
   \<not> 13 / 1000 - 10 / 1000 > priv_max_wait_time sonar_right"
  unfolding get_range_def Let_def
  by (simp add: scripted_def sonar_right_def wait_echo_start.simps wait_echo_end.simps
        gpio_output_def gpio_input_def time_sleep_def time_time_def)

subsection \<open>Range of the result\<close>

text \<open>
  C10. When \<^verbatim>\<open>min_range <= max_range\<close>, every value
  \<^verbatim>\<open>get_range\<close> returns that is not nan lies between the two bounds,
  whether it comes from the second loop's timeout or from the computation
  after the loops.
\<close>

theorem get_range_within_bounds:
  assumes "pf_le (priv_min_range self) (priv_max_range self)"
    and "get_range self w = Some (r, self', w')"
    and "r \<noteq> NaN"
  shows "pf_le (priv_min_range self) r \<and> pf_le r (priv_max_range self)"
  using assms(2)
proof (cases rule: get_range_cases)
  case (no_echo t0 t1 t2 ts)
  with assms(3) show ?thesis by simp
next
  case (max_range t0 t1 t2 ts start_time w7)
  with assms(1) show ?thesis by (auto simp: pf_le_def)
next
  case (measured t0 t1 t2 ts start_time w7 stop_time)
  with limit_range_within [OF assms(1)] show ?thesis by simp
qed

theorem get_range_within_bounds_witness:
  "pf_le (priv_min_range sonar_right) (priv_max_range sonar_right) \<and>
   get_range sonar_right (scripted pulse_inputs pulse_clock)
     = Some (Num (571095 / 1000000), sonar_right, scripted [] [] \<lparr>trace := pulse_trace\<rparr>) \<and>
   Num (571095 / 1000000) \<noteq> NaN \<and>
   pf_le (priv_min_range sonar_right) (Num (571095 / 1000000)) \<and>
   pf_le (Num (571095 / 1000000)) (priv_max_range sonar_right)"
proof -
  have h1: "pf_le (priv_min_range sonar_right) (priv_max_range sonar_right)"
    by (simp add: sonar_right_def pf_le_def)
  have h3: "Num (571095 / 1000000) \<noteq> NaN" by simp
  from get_range_within_bounds [OF h1 pulse_run0 h3] h1 pulse_run0 show ?thesis by simp
qed

subsection \<open>Repeated measurements\<close>

text \<open>
  C8. \<^verbatim>\<open>get_range\<close> returns the object as it was. The call consumed the
  input readings \<open>ins\<close> and the timestamps \<open>cls\<close>; a further call on the
  returned object, in any world that answers with the same readings and with
  the same timestamps moved by \<open>d\<close>, returns the same value and consumes
  just these.
\<close>

theorem get_range_repeatable:
  assumes "get_range self w = Some (r, self', w')"
    and "input_script w = ins @ input_script w'"
    and "clock_script w = cls @ clock_script w'"
    and "input_script v = ins @ ri"
    and "clock_script v = map (\<lambda>t. t + d) cls @ rc"
  shows "self' = self \<and>
         (\<exists>v'. get_range self' v = Some (r, self', v') \<and> input_script v' = ri \<and> clock_script v' = rc)"
proof -
  have same: "\<exists>v'. get_range self v = Some (r, self, v') \<and> input_script v' = ri \<and> clock_script v' = rc"
    if s1: "wait_echo_start self t2 t0 (after_trigger self w ts) = Some (e1, w7)"
      and cl: "clock_script w = t0 # t1 # t2 # ts"
      and rest: "\<And>start_time. e1 = Fell_through start_time \<Longrightarrow>
          \<exists>e2. wait_echo_end self t2 t1 w7 = Some (e2, w') \<and>
            (case e2 of Returned x \<Rightarrow> r = x
             | Fell_through stop_time \<Rightarrow>
                 r = limit_range self (Num ((stop_time - start_time) * HALF_SONIC_SPEED)))"
      and ret: "\<And>x. e1 = Returned x \<Longrightarrow> r = x \<and> w' = w7"
    for t0 t1 t2 ts e1 w7
  proof -
    from wait_echo_start_replay [OF s1]
    obtain ins1 cls1 where i1: "input_script w = ins1 @ input_script w7"
      and c1: "ts = cls1 @ clock_script w7"
      and replay1: "\<And>v d ri rc. input_script v = ins1 @ ri \<Longrightarrow>
          clock_script v = map (\<lambda>t. t + d) cls1 @ rc \<Longrightarrow>
          \<exists>v'. wait_echo_start self (t2 + d) (t0 + d) v =
                  Some (case e1 of Returned x \<Rightarrow> Returned x | Fell_through t \<Rightarrow> Fell_through (t + d), v')
              \<and> input_script v' = ri \<and> clock_script v' = rc"
      by (auto simp: after_trigger_def)
    show ?thesis
    proof (cases e1)
      case (Returned x)
      with ret have rx: "r = x" "w' = w7" by simp_all
      have "ins = ins1" using assms(2) i1 rx by simp
      moreover have "cls = t0 # t1 # t2 # cls1" using assms(3) cl c1 rx by simp
      ultimately have cv: "clock_script v = (t0 + d) # (t1 + d) # (t2 + d) # (map (\<lambda>t. t + d) cls1 @ rc)"
        and iv: "input_script v = ins1 @ ri"
        using assms(4,5) by simp_all
      have "\<exists>v'. wait_echo_start self (t2 + d) (t0 + d) (after_trigger self v (map (\<lambda>t. t + d) cls1 @ rc)) =
                  Some (case e1 of Returned x \<Rightarrow> Returned x | Fell_through t \<Rightarrow> Fell_through (t + d), v')
              \<and> input_script v' = ri \<and> clock_script v' = rc"
        by (rule replay1) (simp_all add: after_trigger_def iv)
      then show ?thesis
        using Returned rx by (auto simp: get_range_unfold [OF cv])
    next
      case (Fell_through start_time)
      from rest [OF this] obtain e2 where
        s2: "wait_echo_end self t2 t1 w7 = Some (e2, w')"
        and res: "case e2 of Returned x \<Rightarrow> r = x
             | Fell_through stop_time \<Rightarrow>
                 r = limit_range self (Num ((stop_time - start_time) * HALF_SONIC_SPEED))"
        by blast
      from wait_echo_end_replay [OF s2]
      obtain ins2 cls2 where i2: "input_script w7 = ins2 @ input_script w'"
        and c2: "clock_script w7 = cls2 @ clock_script w'"
        and replay2: "\<And>v d ri rc. input_script v = ins2 @ ri \<Longrightarrow>
          clock_script v = map (\<lambda>t. t + d) cls2 @ rc \<Longrightarrow>
          \<exists>v'. wait_echo_end self (t2 + d) (t1 + d) v =
                  Some (case e2 of Returned x \<Rightarrow> Returned x | Fell_through t \<Rightarrow> Fell_through (t + d), v')
              \<and> input_script v' = ri \<and> clock_script v' = rc"
        by blast
      have "ins = ins1 @ ins2" using assms(2) i1 i2 by simp
      moreover have "cls = t0 # t1 # t2 # cls1 @ cls2" using assms(3) cl c1 c2 by simp
      ultimately have cv: "clock_script v =
            (t0 + d) # (t1 + d) # (t2 + d) # (map (\<lambda>t. t + d) cls1 @ (map (\<lambda>t. t + d) cls2 @ rc))"
        and iv: "input_script v = ins1 @ (ins2 @ ri)"
        using assms(4,5) by simp_all
      have "\<exists>v'. wait_echo_start self (t2 + d) (t0 + d)
                   (after_trigger self v (map (\<lambda>t. t + d) cls1 @ (map (\<lambda>t. t + d) cls2 @ rc))) =
                  Some (case e1 of Returned x \<Rightarrow> Returned x | Fell_through t \<Rightarrow> Fell_through (t + d), v')
              \<and> input_script v' = ins2 @ ri \<and> clock_script v' = map (\<lambda>t. t + d) cls2 @ rc"
        by (rule replay1) (simp_all add: after_trigger_def iv)
      then obtain v7 where s1v: "wait_echo_start self (t2 + d) (t0 + d)
                   (after_trigger self v (map (\<lambda>t. t + d) cls1 @ (map (\<lambda>t. t + d) cls2 @ rc))) =
                  Some (Fell_through (start_time + d), v7)"
        and v7: "input_script v7 = ins2 @ ri" "clock_script v7 = map (\<lambda>t. t + d) cls2 @ rc"
        using Fell_through by auto
      from replay2 [OF v7] obtain v' where
        s2v: "wait_echo_end self (t2 + d) (t1 + d) v7 =
               Some (case e2 of Returned x \<Rightarrow> Returned x | Fell_through t \<Rightarrow> Fell_through (t + d), v')"
        and fin: "input_script v' = ri" "clock_script v' = rc"
        by blast
      show ?thesis
        using s1v s2v fin res by (cases e2) (simp_all add: get_range_unfold [OF cv])
    qed
  qed
  from assms(1) show ?thesis
  proof (cases rule: get_range_cases)
    case (no_echo t0 t1 t2 ts)
    from same [OF no_echo(2) no_echo(1)] no_echo(3,4) show ?thesis by simp
  next
    case (max_range t0 t1 t2 ts start_time w7)
    from same [OF max_range(2) max_range(1)] max_range(3,4,5) show ?thesis by simp
  next
    case (measured t0 t1 t2 ts start_time w7 stop_time)
    from same [OF measured(2) measured(1)] measured(3,4,5) show ?thesis by simp
  qed
qed

theorem get_range_repeatable_witness:
  "get_range sonar_right
     \<lparr>input_script = pulse_inputs @ pulse_inputs,
      clock_script = pulse_clock @ map (\<lambda>t. t + 1) pulse_clock, trace = []\<rparr>
     = Some (Num (571095 / 1000000), sonar_right,
         \<lparr>input_script = pulse_inputs, clock_script = map (\<lambda>t. t + 1) pulse_clock,
          trace = pulse_trace\<rparr>) \<and>
   map_option fst (get_range sonar_right
         \<lparr>input_script = pulse_inputs, clock_script = map (\<lambda>t. t + 1) pulse_clock,
          trace = pulse_trace\<rparr>)
     = Some (Num (571095 / 1000000))"
proof -
  let ?w = "\<lparr>input_script = pulse_inputs @ pulse_inputs,
      clock_script = pulse_clock @ map (\<lambda>t. t + 1) pulse_clock, trace = []\<rparr>"
  let ?w' = "\<lparr>input_script = pulse_inputs, clock_script = map (\<lambda>t. t + 1) pulse_clock,
          trace = pulse_trace\<rparr>"
  have run: "get_range sonar_right ?w = Some (Num (571095 / 1000000), sonar_right, ?w')"
    using pulse_run [of pulse_inputs 0 "map (\<lambda>t. t + 1) pulse_clock" "[]"] by simp
  have h2: "input_script ?w = pulse_inputs @ input_script ?w'" by simp
  have h3: "clock_script ?w = pulse_clock @ clock_script ?w'" by simp
  have h4: "input_script ?w' = pulse_inputs @ []" by simp
  have h5: "clock_script ?w' = map (\<lambda>t. t + 1) pulse_clock @ []" by simp
  from get_range_repeatable [OF run h2 h3 h4 h5] run show ?thesis by auto
qed

end
